theory Spec2Isabelle
  imports Main
begin

section \<open>The regular-expression engine of re.c\<close>

text \<open>
  A shallow embedding of \<^verbatim>\<open>src/re.c\<close>: the compiler (\<^verbatim>\<open>re_compile\<close> and its
  helpers) and the matcher (\<^verbatim>\<open>matchpattern\<close>, \<^verbatim>\<open>re_rmatch\<close>, \<^verbatim>\<open>re_rmatchg\<close>).

  Conventions of the embedding.
  \<^item> A C string is a \<open>string\<close> (the bytes before the terminator); the memory block is
    the list followed by one NUL. Reading \<^verbatim>\<open>s[i]\<close> is \<open>peek s i\<close>: the byte for
    \<open>i < length s\<close>, NUL for \<open>i = length s\<close>, and the fault \<open>OutOfBounds\<close> beyond (the C
    read is outside the object there, so its behaviour is undefined).
  \<^item> A pointer into a string, \<^verbatim>\<open>&pattern[pi]\<close>, is the pair of the string and the
    offset; \<^verbatim>\<open>text+i\<close> handed to a search is \<open>drop i text\<close> (the matcher never reads
    before the pointer it is given).
  \<^item> \<^verbatim>\<open>errno\<close> is threaded through every function: it is an argument and part of
    the result. \<open>ENONE\<close> is the value 0.
  \<^item> Structs are records; a function that writes through a pointer to a struct takes
    the struct and returns the updated one.
  \<^item> The loop of \<^verbatim>\<open>matchpattern\<close> that retries repetition counts, and the loop of
    \<^verbatim>\<open>re_rmatchg\<close>, need not terminate: they take fuel, and \<open>None\<close> means that the
    fuel ran out.
\<close>

subsection \<open>errno, faults, reading a string\<close>

datatype errno = ENONE | EINVAL | ENOBUFS

datatype fault = OutOfBounds

type_synonym 'a res = "fault + 'a"

abbreviation NUL :: char where "NUL \<equiv> CHR 0x00"
abbreviation BACKSLASH :: char where "BACKSLASH \<equiv> CHR 0x5C"
abbreviation CR :: char where "CR \<equiv> CHR 0x0D"
abbreviation LF :: char where "LF \<equiv> CHR 0x0A"

definition peek :: "string \<Rightarrow> nat \<Rightarrow> char res" where
  "peek s i = (if i < length s then Inr (s ! i)
               else if i = length s then Inr NUL
               else Inl OutOfBounds)"

subsection \<open>ctype.h in the C locale\<close>

definition isspace :: "char \<Rightarrow> bool" where
  "isspace c = (of_char c = (32::nat) \<or> (9 \<le> (of_char c :: nat) \<and> (of_char c :: nat) \<le> 13))"

definition isdigit :: "char \<Rightarrow> bool" where
  "isdigit c = (48 \<le> (of_char c :: nat) \<and> (of_char c :: nat) \<le> 57)"

definition isalnum :: "char \<Rightarrow> bool" where
  "isalnum c = (isdigit c
                \<or> (65 \<le> (of_char c :: nat) \<and> (of_char c :: nat) \<le> 90)
                \<or> (97 \<le> (of_char c :: nat) \<and> (of_char c :: nat) \<le> 122))"

definition iswordchar :: "char \<Rightarrow> bool" where
  "iswordchar c = (isalnum c \<or> c = CHR ''_'')"

text \<open>The value of a plain \<^verbatim>\<open>char\<close> in a comparison: plain \<^verbatim>\<open>char\<close> is signed
  (the x86-64 System V ABI). Bytes below 128 compare the same either way.\<close>

definition schar :: "char \<Rightarrow> int" where
  "schar c = (if (of_char c :: nat) < 128 then int (of_char c) else int (of_char c) - 256)"

subsection \<open>The data model\<close>

text \<open>
  \<^verbatim>\<open>re.h\<close> is not among the sources. The enumerators and the fields below are the
  ones \<^verbatim>\<open>re.c\<close> uses. \<^verbatim>\<open>quantifiermin\<close>, \<^verbatim>\<open>quantifiermax\<close> and the repetition
  counters are \<^verbatim>\<open>uint_fast8_t\<close>, one byte wide with \<^verbatim>\<open>UINT_FAST8_MAX = 255\<close> (glibc,
  musl): they are naturals, and the arithmetic that can leave the range is written
  \<open>mod 256\<close>. The pointer \<^verbatim>\<open>ccl\<close> of a token is the index of its first class
  character in \<^verbatim>\<open>cclbuf\<close>.
\<close>

datatype token_type =
  TOKEN_NULLTERM | TOKEN_METABSL | TOKEN_METACHAR | TOKEN_CHARCLASS | TOKEN_INVCHARCLASS
  | TOKEN_CHAR

datatype ccl_type = CCL_NULLTERM | CCL_METABSL | CCL_CHARRANGE

record ClassChar =
  cc_type :: ccl_type
  cc_meta :: nat
  cc_first :: char
  cc_last :: char

record re_Token =
  tk_type :: token_type
  tk_meta :: nat
  tk_ch :: char
  tk_ccl :: nat
  quantifiermin :: nat
  quantifiermax :: nat
  greedy :: bool
  atomic :: bool

record Regex =
  tokens :: "re_Token list"
  cclbuf :: "ClassChar list"
  ccli :: nat

definition UINT_FAST8_MAX :: nat where
  "UINT_FAST8_MAX = 255"

text \<open>\<^verbatim>\<open>MAXTOKENS\<close> and \<^verbatim>\<open>CCLBUFLEN\<close> are macros of \<^verbatim>\<open>re.h\<close>, the sizes of the two
  arrays of a \<^verbatim>\<open>Regex\<close>. Their values are not among the sources, so they are
  parameters here: the lengths of the arrays of the \<^verbatim>\<open>Regex\<close> object at hand, and of the
  class buffer handed to \<^verbatim>\<open>compileone\<close>.\<close>

definition MAXTOKENS :: "Regex \<Rightarrow> nat" where
  "MAXTOKENS r = length (tokens r)"

definition CCLBUFLEN :: "ClassChar list \<Rightarrow> nat" where
  "CCLBUFLEN cb = length cb"

subsection \<open>The predicates\<close>

text \<open>A validator takes the text, the position and \<^verbatim>\<open>errno\<close>; it returns
  \<^verbatim>\<open>errno\<close> and the number of bytes eaten.\<close>

type_synonym validator = "string \<Rightarrow> nat \<Rightarrow> errno \<Rightarrow> (errno \<times> nat) res"

definition matchwhitespace :: validator where
  "matchwhitespace text i e =
     (case peek text i of Inl f \<Rightarrow> Inl f
      | Inr c \<Rightarrow> if \<not> isspace c then Inr (EINVAL, 0) else Inr (e, 1))"

definition matchnotwhitespace :: validator where
  "matchnotwhitespace text i e =
     (case peek text i of Inl f \<Rightarrow> Inl f
      | Inr c \<Rightarrow> if isspace c then Inr (EINVAL, 0) else Inr (e, 1))"

definition matchdigit :: validator where
  "matchdigit text i e =
     (case peek text i of Inl f \<Rightarrow> Inl f
      | Inr c \<Rightarrow> if \<not> isdigit c then Inr (EINVAL, 0) else Inr (e, 1))"

definition matchnotdigit :: validator where
  "matchnotdigit text i e =
     (case peek text i of Inl f \<Rightarrow> Inl f
      | Inr c \<Rightarrow> if isdigit c then Inr (EINVAL, 0) else Inr (e, 1))"

definition matchwordchar :: validator where
  "matchwordchar text i e =
     (case peek text i of Inl f \<Rightarrow> Inl f
      | Inr c \<Rightarrow> if \<not> iswordchar c then Inr (EINVAL, 0) else Inr (e, 1))"

definition matchnotwordchar :: validator where
  "matchnotwordchar text i e =
     (case peek text i of Inl f \<Rightarrow> Inl f
      | Inr c \<Rightarrow> if iswordchar c then Inr (EINVAL, 0) else Inr (e, 1))"

definition matchnewline :: validator where
  "matchnewline text i e =
     (case peek text i of Inl f \<Rightarrow> Inl f
      | Inr c \<Rightarrow>
          if c = CR then
            (case peek text (i + 1) of Inl f \<Rightarrow> Inl f
             | Inr d \<Rightarrow> if d = LF then Inr (e, 2) else Inr (EINVAL, 0))
          else if c = LF then Inr (e, 1)
          else Inr (EINVAL, 0))"

definition matchwordboundary :: validator where
  "matchwordboundary text i e =
     (if i > 0 then
        (case peek text (i - 1) of Inl f \<Rightarrow> Inl f
         | Inr a \<Rightarrow>
            (case peek text i of Inl f \<Rightarrow> Inl f
             | Inr b \<Rightarrow> if iswordchar a \<noteq> (\<not> iswordchar b) then Inr (EINVAL, 0)
                        else Inr (e, 0)))
      else
        (case peek text 0 of Inl f \<Rightarrow> Inl f
         | Inr a \<Rightarrow> if \<not> iswordchar a then Inr (EINVAL, 0) else Inr (e, 0)))"

definition matchnotwordboundary :: validator where
  "matchnotwordboundary text i e =
     (if i > 0 then
        (case peek text (i - 1) of Inl f \<Rightarrow> Inl f
         | Inr a \<Rightarrow>
            (case peek text i of Inl f \<Rightarrow> Inl f
             | Inr b \<Rightarrow> if iswordchar a = (\<not> iswordchar b) then Inr (EINVAL, 0)
                        else Inr (e, 0)))
      else
        (case peek text 0 of Inl f \<Rightarrow> Inl f
         | Inr a \<Rightarrow> if iswordchar a then Inr (EINVAL, 0) else Inr (e, 0)))"

definition matchstart :: validator where
  "matchstart text i e = (if i \<noteq> 0 then Inr (EINVAL, 0) else Inr (e, 0))"

definition matchend :: validator where
  "matchend text i e =
     (case peek text i of Inl f \<Rightarrow> Inl f
      | Inr c \<Rightarrow> if c \<noteq> NUL then Inr (EINVAL, 0) else Inr (e, 0))"

definition matchany :: validator where
  "matchany text i e =
     (case peek text i of Inl f \<Rightarrow> Inl f
      | Inr c \<Rightarrow> if c = NUL then Inr (EINVAL, 0) else Inr (e, 1))"

definition metabsls :: "(char \<times> validator) list" where
  "metabsls =
     [(CHR ''s'', matchwhitespace), (CHR ''S'', matchnotwhitespace),
      (CHR ''d'', matchdigit), (CHR ''D'', matchnotdigit),
      (CHR ''w'', matchwordchar), (CHR ''W'', matchnotwordchar),
      (CHR ''R'', matchnewline),
      (CHR ''b'', matchwordboundary), (CHR ''B'', matchnotwordboundary)]"

definition metachars :: "(char \<times> validator) list" where
  "metachars = [(CHR ''^'', matchstart), (CHR ''$'', matchend), (CHR ''.'', matchany)]"

definition quantifiers :: "(char \<times> nat \<times> nat) list" where
  "quantifiers =
     [(CHR ''?'', 0, 1), (CHR ''*'', 0, UINT_FAST8_MAX), (CHR ''+'', 1, UINT_FAST8_MAX)]"

text \<open>The loops \<^verbatim>\<open>for (i = 0; i < sizeof(table)/sizeof(table[0]); ++i) if (c == table[i].pattern)\<close>:
  the index of the first entry of the table whose pattern is \<open>c\<close>.\<close>

fun find_pattern :: "char \<Rightarrow> (char \<times> 'a) list \<Rightarrow> nat \<Rightarrow> nat option" where
  "find_pattern c [] i = None"
| "find_pattern c (x # xs) i = (if c = fst x then Some i else find_pattern c xs (i + 1))"

text \<open>\<^verbatim>\<open>table[meta].validator(text, i)\<close>; an index outside the table is a fault.\<close>

definition call_validator :: "(char \<times> validator) list \<Rightarrow> nat \<Rightarrow> validator" where
  "call_validator table m text i e =
     (if m < length table then snd (table ! m) text i e else Inl OutOfBounds)"

subsection \<open>The matcher\<close>

text \<open>\<^verbatim>\<open>matchoneclc\<close>: one class character against \<^verbatim>\<open>text[i]\<close>.\<close>

definition matchoneclc :: "ClassChar \<Rightarrow> string \<Rightarrow> nat \<Rightarrow> errno \<Rightarrow> (errno \<times> nat) res" where
  "matchoneclc pattern text i e =
     (case cc_type pattern of
        CCL_METABSL \<Rightarrow>
          (case call_validator metabsls (cc_meta pattern) text i ENONE of Inl f \<Rightarrow> Inl f
           | Inr (e', n) \<Rightarrow> if e' \<noteq> ENONE then Inr (e', 0) else Inr (e', 1))
      | CCL_CHARRANGE \<Rightarrow>
          (case peek text i of Inl f \<Rightarrow> Inl f
           | Inr c \<Rightarrow>
              if schar c < schar (cc_first pattern) \<or> schar c > schar (cc_last pattern)
              then Inr (EINVAL, 0) else Inr (e, 1))
      | CCL_NULLTERM \<Rightarrow> Inr (EINVAL, 0))"

text \<open>The two \<^verbatim>\<open>while (pattern.ccl[ccli].type != CCL_NULLTERM)\<close> loops of
  \<^verbatim>\<open>matchone\<close>; the list is the class buffer from \<^verbatim>\<open>pattern.ccl\<close> on, and running
  off its end is a fault.\<close>

fun matchone_charclass :: "ClassChar list \<Rightarrow> string \<Rightarrow> nat \<Rightarrow> (errno \<times> nat) res" where
  "matchone_charclass [] text i = Inl OutOfBounds"
| "matchone_charclass (c # cs) text i =
     (if cc_type c = CCL_NULLTERM then Inr (EINVAL, 0)
      else (case matchoneclc c text i ENONE of Inl f \<Rightarrow> Inl f
            | Inr (e, n) \<Rightarrow> if e = ENONE then Inr (e, 1)
                            else matchone_charclass cs text (i + n)))"

fun matchone_invcharclass :: "ClassChar list \<Rightarrow> string \<Rightarrow> nat \<Rightarrow> (errno \<times> nat) res" where
  "matchone_invcharclass [] text i = Inl OutOfBounds"
| "matchone_invcharclass (c # cs) text i =
     (if cc_type c = CCL_NULLTERM then Inr (ENONE, 1)
      else (case matchoneclc c text i ENONE of Inl f \<Rightarrow> Inl f
            | Inr (e, n) \<Rightarrow> if e = ENONE then Inr (EINVAL, 0)
                            else matchone_invcharclass cs text (i + n)))"

definition matchone ::
  "ClassChar list \<Rightarrow> re_Token \<Rightarrow> string \<Rightarrow> nat \<Rightarrow> errno \<Rightarrow> (errno \<times> nat) res" where
  "matchone cb pattern text i e =
     (case tk_type pattern of
        TOKEN_METABSL \<Rightarrow>
          (case call_validator metabsls (tk_meta pattern) text i ENONE of Inl f \<Rightarrow> Inl f
           | Inr (e', chars) \<Rightarrow> if e' \<noteq> ENONE then Inr (e', 0) else Inr (e', chars))
      | TOKEN_METACHAR \<Rightarrow>
          (case call_validator metachars (tk_meta pattern) text i ENONE of Inl f \<Rightarrow> Inl f
           | Inr (e', chars) \<Rightarrow> if e' \<noteq> ENONE then Inr (e', 0) else Inr (e', chars))
      | TOKEN_CHARCLASS \<Rightarrow> matchone_charclass (drop (tk_ccl pattern) cb) text i
      | TOKEN_INVCHARCLASS \<Rightarrow> matchone_invcharclass (drop (tk_ccl pattern) cb) text i
      | TOKEN_CHAR \<Rightarrow>
          (case peek text i of Inl f \<Rightarrow> Inl f
           | Inr c \<Rightarrow> if tk_ch pattern \<noteq> c then Inr (EINVAL, 0) else Inr (e, 1))
      | TOKEN_NULLTERM \<Rightarrow> Inr (EINVAL, 0))"

text \<open>\<^verbatim>\<open>matchcount\<close>: up to \<^verbatim>\<open>*count\<close> repetitions of one token. The result is
  \<^verbatim>\<open>errno\<close>, the new \<^verbatim>\<open>*count\<close> and the bytes eaten. \<open>matchcount_loop\<close> is the
  \<^verbatim>\<open>for\<close> loop with its counter \<open>c\<close>.\<close>

function matchcount_loop ::
  "ClassChar list \<Rightarrow> re_Token \<Rightarrow> nat \<Rightarrow> nat \<Rightarrow> string \<Rightarrow> nat \<Rightarrow> nat \<Rightarrow> errno
   \<Rightarrow> (errno \<times> nat \<times> nat) res" where
  "matchcount_loop cb pattern count c text oldi i e =
     (if c < count then
        (case matchone cb pattern text i ENONE of Inl f \<Rightarrow> Inl f
         | Inr (e', n) \<Rightarrow>
            if e' \<noteq> ENONE then Inr (e', c, i + n - oldi)
            else matchcount_loop cb pattern count (c + 1) text oldi (i + n) e')
      else Inr (e, count, i - oldi))"
  by pat_completeness auto
termination
  by (relation "measure (\<lambda>(cb, pattern, count, c, text, oldi, i, e). count - c)") auto

declare matchcount_loop.simps [simp del]

definition matchcount ::
  "ClassChar list \<Rightarrow> re_Token \<Rightarrow> nat \<Rightarrow> string \<Rightarrow> nat \<Rightarrow> errno \<Rightarrow> (errno \<times> nat \<times> nat) res" where
  "matchcount cb pattern count text i e = matchcount_loop cb pattern count 0 text i i e"

text \<open>The first loop of \<^verbatim>\<open>matchpattern\<close>, which eats the tokens of fixed count and
  the atomic ones. It either returns from \<^verbatim>\<open>matchpattern\<close> (with \<^verbatim>\<open>errno\<close> and the
  value returned) or breaks at a token of variable count that is not atomic (with that
  token, the tokens after it, the position and \<^verbatim>\<open>errno\<close>). The list is the token
  array from \<^verbatim>\<open>pattern\<close> on.\<close>

datatype iterated = Returned errno nat | Broke re_Token "re_Token list" nat errno

fun matchpattern_iter ::
  "ClassChar list \<Rightarrow> re_Token list \<Rightarrow> string \<Rightarrow> nat \<Rightarrow> errno \<Rightarrow> iterated res" where
  "matchpattern_iter cb [] text i e = Inl OutOfBounds"
| "matchpattern_iter cb (p # ps) text i e =
     (if tk_type p = TOKEN_NULLTERM then Inr (Returned e 0)
      else if quantifiermin p \<noteq> quantifiermax p \<and> \<not> atomic p then Inr (Broke p ps i e)
      else
        (case matchcount cb p (if greedy p then quantifiermax p else quantifiermin p) text i e of
           Inl f \<Rightarrow> Inl f
         | Inr (e', count, n) \<Rightarrow>
            if count < quantifiermin p then Inr (Returned e' 0)
            else matchpattern_iter cb ps text (i + n) e'))"

text \<open>\<^verbatim>\<open>matchpattern\<close>, and its second loop \<open>matchpattern_retry\<close>, which tries one
  repetition count of the token \<open>p\<close> after the other, each time matching the rest of
  the pattern \<open>ps\<close> by a recursive call. The fuel bounds the number of iterations and
  calls.\<close>

fun matchpattern ::
  "nat \<Rightarrow> ClassChar list \<Rightarrow> re_Token list \<Rightarrow> string \<Rightarrow> nat \<Rightarrow> errno \<Rightarrow> (errno \<times> nat) res option"
and matchpattern_retry ::
  "nat \<Rightarrow> ClassChar list \<Rightarrow> re_Token \<Rightarrow> re_Token list \<Rightarrow> string \<Rightarrow> nat \<Rightarrow> nat \<Rightarrow> nat \<Rightarrow> errno
   \<Rightarrow> (errno \<times> nat) res option" where
  "matchpattern 0 cb pattern text i e = None"
| "matchpattern (Suc fuel) cb pattern text i e =
     (case pattern of
        [] \<Rightarrow> Some (Inl OutOfBounds)
      | p0 # _ \<Rightarrow>
          if tk_type p0 = TOKEN_NULLTERM then Some (Inr (e, 0))
          else
            (case matchpattern_iter cb pattern text i e of
               Inl f \<Rightarrow> Some (Inl f)
             | Inr (Returned e' r) \<Rightarrow> Some (Inr (e', r))
             | Inr (Broke p ps oldi e') \<Rightarrow>
                 matchpattern_retry fuel cb p ps text i oldi
                   (if greedy p then quantifiermax p else quantifiermin p) e'))"
| "matchpattern_retry 0 cb p ps text starti oldi count e = None"
| "matchpattern_retry (Suc fuel) cb p ps text starti oldi count e =
     (case matchcount cb p count text oldi e of
        Inl f \<Rightarrow> Some (Inl f)
      | Inr (e1, count1, n) \<Rightarrow>
          if count1 < quantifiermin p then Some (Inr (e1, 0))
          else
            (case matchpattern fuel cb ps text (oldi + n) ENONE of
               None \<Rightarrow> None
             | Some (Inl f) \<Rightarrow> Some (Inl f)
             | Some (Inr (e2, m)) \<Rightarrow>
                 if e2 = ENONE then Some (Inr (ENONE, oldi + n + m - starti))
                 else if greedy p then
                   (if count1 \<le> quantifiermin p then Some (Inr (e2, 0))
                    else matchpattern_retry fuel cb p ps text starti oldi (count1 - 1) e2)
                 else
                   (if count1 \<ge> quantifiermax p then Some (Inr (e2, 0))
                    else matchpattern_retry fuel cb p ps text starti oldi
                           ((count1 + 1) mod 256) e2)))"

subsection \<open>The search drivers\<close>

text \<open>\<^verbatim>\<open>re_rmatch\<close>. The output pointer \<^verbatim>\<open>length\<close> is \<open>None\<close> for a null pointer and
  \<open>Some v\<close> for a pointer to a \<^verbatim>\<open>size_t\<close> that holds \<open>v\<close>; the result is \<^verbatim>\<open>errno\<close>,
  the value returned and the pointer with what it refers to afterwards.
  \<open>re_rmatch_loop\<close> is the \<^verbatim>\<open>for\<close> loop with its index \<open>i\<close>.\<close>

function re_rmatch_loop ::
  "nat \<Rightarrow> Regex \<Rightarrow> string \<Rightarrow> nat option \<Rightarrow> nat \<Rightarrow> errno
   \<Rightarrow> (errno \<times> nat \<times> nat option) res option" where
  "re_rmatch_loop fuel pattern text len i e =
     (case peek text i of
        Inl f \<Rightarrow> Some (Inl f)
      | Inr c \<Rightarrow>
          if c \<noteq> NUL then
            (case matchpattern fuel (cclbuf pattern) (tokens pattern) text i ENONE of
               None \<Rightarrow> None
             | Some (Inl f) \<Rightarrow> Some (Inl f)
             | Some (Inr (e', lengthBuf)) \<Rightarrow>
                 if e' = ENONE then
                   Some (Inr (e', i, (case len of None \<Rightarrow> None | Some _ \<Rightarrow> Some lengthBuf)))
                 else re_rmatch_loop fuel pattern text len (i + 1) e')
          else Some (Inr (e, 0, len)))"
  by pat_completeness auto
termination
  by (relation "measure (\<lambda>(fuel, pattern, text, len, i, e). length text - i)")
     (auto simp: peek_def split: if_splits)

declare re_rmatch_loop.simps [simp del]

definition re_rmatch ::
  "nat \<Rightarrow> Regex \<Rightarrow> string \<Rightarrow> nat option \<Rightarrow> errno \<Rightarrow> (errno \<times> nat \<times> nat option) res option" where
  "re_rmatch fuel pattern text len e = re_rmatch_loop fuel pattern text len 0 e"

text \<open>\<^verbatim>\<open>re_rmatchg\<close>: the loop with its position \<open>i\<close> and its counter \<open>c\<close> (a
  \<^verbatim>\<open>size_t\<close> of 64 bits). The local \<^verbatim>\<open>length\<close> is set to 0 before every search.\<close>

fun re_rmatchg_loop ::
  "nat \<Rightarrow> Regex \<Rightarrow> string \<Rightarrow> nat \<Rightarrow> nat \<Rightarrow> errno \<Rightarrow> (errno \<times> nat) res option" where
  "re_rmatchg_loop 0 pattern text i c e = None"
| "re_rmatchg_loop (Suc fuel) pattern text i c e =
     (case peek text i of
        Inl f \<Rightarrow> Some (Inl f)
      | Inr b \<Rightarrow>
          if b \<noteq> NUL then
            (case re_rmatch fuel pattern (drop i text) (Some 0) ENONE of
               None \<Rightarrow> None
             | Some (Inl f) \<Rightarrow> Some (Inl f)
             | Some (Inr (e', offset, len)) \<Rightarrow>
                 if e' \<noteq> ENONE then Some (Inr (e', c))
                 else re_rmatchg_loop fuel pattern text
                        (i + offset + (case len of None \<Rightarrow> 0 | Some l \<Rightarrow> l))
                        ((c + 1) mod 2 ^ 64) e')
          else Some (Inr (e, c)))"

definition re_rmatchg :: "nat \<Rightarrow> Regex \<Rightarrow> string \<Rightarrow> errno \<Rightarrow> (errno \<times> nat) res option" where
  "re_rmatchg fuel pattern text e = re_rmatchg_loop fuel pattern text 0 0 e"

subsection \<open>The compiler\<close>

text \<open>\<^verbatim>\<open>compileoneclc\<close>: one class character at \<^verbatim>\<open>pattern[p]\<close>. The result is
  \<^verbatim>\<open>errno\<close>, the number of bytes eaten and the class character written.\<close>

definition compileoneclc ::
  "ClassChar \<Rightarrow> string \<Rightarrow> nat \<Rightarrow> errno \<Rightarrow> (errno \<times> nat \<times> ClassChar) res" where
  "compileoneclc compiled pattern p e =
     (case peek pattern p of Inl f \<Rightarrow> Inl f
      | Inr c \<Rightarrow>
          if c = BACKSLASH then
            (case peek pattern (p + 1) of Inl f \<Rightarrow> Inl f
             | Inr d \<Rightarrow>
                 if d = NUL then Inr (EINVAL, 0, compiled)
                 else
                   (case find_pattern d metabsls 0 of
                      Some i \<Rightarrow> Inr (e, 2, compiled\<lparr>cc_type := CCL_METABSL, cc_meta := i\<rparr>)
                    | None \<Rightarrow> Inr (e, 2, compiled\<lparr>cc_type := CCL_CHARRANGE, cc_first := d\<rparr>)))
          else if c = NUL \<or> c = CHR '']'' then Inr (e, 1, compiled\<lparr>cc_type := CCL_NULLTERM\<rparr>)
          else Inr (e, 1, compiled\<lparr>cc_type := CCL_CHARRANGE, cc_first := c\<rparr>))"

text \<open>\<^verbatim>\<open>compilerange\<close>: the optional \<^verbatim>\<open>-last\<close> after a class character.\<close>

definition compilerange ::
  "ClassChar \<Rightarrow> string \<Rightarrow> nat \<Rightarrow> errno \<Rightarrow> (errno \<times> nat \<times> ClassChar) res" where
  "compilerange compiled pattern p e =
     (case peek pattern p of Inl f \<Rightarrow> Inl f
      | Inr c \<Rightarrow>
          if c \<noteq> CHR ''-'' then
            Inr (e, 0, if cc_type compiled = CCL_CHARRANGE
                       then compiled\<lparr>cc_last := cc_first compiled\<rparr> else compiled)
          else if cc_type compiled \<noteq> CCL_CHARRANGE then Inr (EINVAL, 0, compiled)
          else
            (case peek pattern (p + 1) of Inl f \<Rightarrow> Inl f
             | Inr d \<Rightarrow>
                 if d = BACKSLASH then
                   (case peek pattern (p + 2) of Inl f \<Rightarrow> Inl f
                    | Inr x \<Rightarrow>
                        if x = NUL then Inr (EINVAL, 0, compiled)
                        else
                          (case find_pattern x metabsls 0 of
                             Some i \<Rightarrow> Inr (EINVAL, 0, compiled)
                           | None \<Rightarrow> Inr (e, 4, compiled\<lparr>cc_last := x\<rparr>)))
                 else if d = CHR '']'' then Inr (e, 0, compiled\<lparr>cc_last := cc_first compiled\<rparr>)
                 else if d = NUL then Inr (EINVAL, 0, compiled)
                 else Inr (e, 2, compiled\<lparr>cc_last := d\<rparr>)))"

text \<open>The character-class case of \<^verbatim>\<open>compileone\<close> from its \<^verbatim>\<open>while\<close> loop on: \<open>i\<close>
  is the loop's index into the pattern. The result is \<^verbatim>\<open>errno\<close>, the value returned,
  the class buffer and \<^verbatim>\<open>*ccli\<close>.\<close>

function compileone_class ::
  "string \<Rightarrow> nat \<Rightarrow> nat \<Rightarrow> ClassChar list \<Rightarrow> nat \<Rightarrow> errno
   \<Rightarrow> (errno \<times> nat \<times> ClassChar list \<times> nat) res" where
  "compileone_class pattern p i cb ci e =
     (case peek pattern (p + i) of Inl f \<Rightarrow> Inl f
      | Inr c \<Rightarrow>
          if c \<noteq> NUL \<and> c \<noteq> CHR '']'' then
            (if ci \<ge> CCLBUFLEN cb then Inr (ENOBUFS, 0, cb, ci)
             else
               (case compileoneclc (cb ! ci) pattern (p + i) ENONE of Inl f \<Rightarrow> Inl f
                | Inr (e1, n1, cc1) \<Rightarrow>
                    if e1 \<noteq> ENONE then Inr (e1, 0, cb[ci := cc1], ci)
                    else
                      (case compilerange cc1 pattern (p + i + n1) e1 of Inl f \<Rightarrow> Inl f
                       | Inr (e2, n2, cc2) \<Rightarrow>
                           if e2 \<noteq> ENONE then Inr (e2, 0, cb[ci := cc2], ci)
                           else compileone_class pattern p (i + n1 + n2) (cb[ci := cc2])
                                  (ci + 1) e2)))
          else if c = NUL then Inr (EINVAL, 0, cb, ci)
          else if ci \<ge> CCLBUFLEN cb then Inr (ENOBUFS, 0, cb, ci)
          else Inr (e, i + 1, cb[ci := (cb ! ci)\<lparr>cc_type := CCL_NULLTERM\<rparr>], ci + 1))"
  by pat_completeness auto
termination
  by (relation "measure (\<lambda>(pattern, p, i, cb, ci, e). length cb - ci)")
     (auto simp: CCLBUFLEN_def)

declare compileone_class.simps [simp del]

text \<open>\<^verbatim>\<open>compileone\<close>: one atom at \<^verbatim>\<open>pattern[p]\<close>. The result is \<^verbatim>\<open>errno\<close>, the number
  of bytes eaten, the token written, the class buffer and \<^verbatim>\<open>*ccli\<close>.\<close>

definition compileone ::
  "re_Token \<Rightarrow> string \<Rightarrow> nat \<Rightarrow> ClassChar list \<Rightarrow> nat \<Rightarrow> errno
   \<Rightarrow> (errno \<times> nat \<times> re_Token \<times> ClassChar list \<times> nat) res" where
  "compileone compiled pattern p cb ci e =
     (case peek pattern p of Inl f \<Rightarrow> Inl f
      | Inr c \<Rightarrow>
          if c = BACKSLASH then
            (case peek pattern (p + 1) of Inl f \<Rightarrow> Inl f
             | Inr d \<Rightarrow>
                 if d = NUL then Inr (EINVAL, 0, compiled, cb, ci)
                 else
                   (case find_pattern d metabsls 0 of
                      Some i \<Rightarrow>
                        Inr (e, 2, compiled\<lparr>tk_type := TOKEN_METABSL, tk_meta := i\<rparr>, cb, ci)
                    | None \<Rightarrow>
                        Inr (e, 2, compiled\<lparr>tk_type := TOKEN_CHAR, tk_ch := d\<rparr>, cb, ci)))
          else if c = CHR ''['' then
            (case peek pattern (p + 1) of Inl f \<Rightarrow> Inl f
             | Inr d \<Rightarrow>
                 let compiled1 = compiled\<lparr>tk_type := TOKEN_CHARCLASS, tk_ccl := ci\<rparr>;
                     compiled2 = (if d = CHR ''^'' then compiled1\<lparr>tk_type := TOKEN_INVCHARCLASS\<rparr>
                                  else compiled1);
                     i = (if d = CHR ''^'' then 2 else 1)
                 in (case compileone_class pattern p i cb ci e of Inl f \<Rightarrow> Inl f
                     | Inr (e', n, cb', ci') \<Rightarrow> Inr (e', n, compiled2, cb', ci')))
          else if c = NUL then Inr (e, 0, compiled\<lparr>tk_type := TOKEN_NULLTERM\<rparr>, cb, ci)
          else
            (case find_pattern c metachars 0 of
               Some i \<Rightarrow> Inr (e, 1, compiled\<lparr>tk_type := TOKEN_METACHAR, tk_meta := i\<rparr>, cb, ci)
             | None \<Rightarrow> Inr (e, 1, compiled\<lparr>tk_type := TOKEN_CHAR, tk_ch := c\<rparr>, cb, ci)))"

text \<open>\<^verbatim>\<open>compilequantifier\<close>. \<open>compilequantifier_min\<close> and \<open>compilequantifier_max\<close> are
  its two loops over the inside of the braces, with their index \<open>i\<close>;
  \<^verbatim>\<open>compilequantifier\<close> never sets \<^verbatim>\<open>errno\<close>. The result is \<^verbatim>\<open>errno\<close>, the number of
  bytes eaten and the token written.\<close>

function compilequantifier_max ::
  "re_Token \<Rightarrow> string \<Rightarrow> nat \<Rightarrow> nat \<Rightarrow> errno \<Rightarrow> (errno \<times> nat \<times> re_Token) res" where
  "compilequantifier_max compiled pattern p i e =
     (case peek pattern (p + i) of Inl f \<Rightarrow> Inl f
      | Inr c \<Rightarrow>
          if c \<noteq> NUL then
            (if isdigit c then
               compilequantifier_max
                 (compiled\<lparr>quantifiermax :=
                    ((quantifiermax compiled * 10) mod 256 + (of_char c - 48)) mod 256\<rparr>)
                 pattern p (i + 1) e
             else if c = CHR ''}'' then Inr (e, i + 1, compiled)
             else Inr (e, 0, compiled\<lparr>quantifiermin := 1, quantifiermax := 1\<rparr>))
          else Inr (e, 0, compiled))"
  by pat_completeness auto
termination
  by (relation "measure (\<lambda>(compiled, pattern, p, i, e). length pattern - (p + i))")
     (auto simp: peek_def split: if_splits)

declare compilequantifier_max.simps [simp del]

function compilequantifier_min ::
  "re_Token \<Rightarrow> string \<Rightarrow> nat \<Rightarrow> nat \<Rightarrow> errno \<Rightarrow> (errno \<times> nat \<times> re_Token) res" where
  "compilequantifier_min compiled pattern p i e =
     (case peek pattern (p + i) of Inl f \<Rightarrow> Inl f
      | Inr c \<Rightarrow>
          if c \<noteq> NUL then
            (if isdigit c then
               compilequantifier_min
                 (compiled\<lparr>quantifiermin :=
                    ((quantifiermin compiled * 10) mod 256 + (of_char c - 48)) mod 256\<rparr>)
                 pattern p (i + 1) e
             else if c = CHR '','' then
               (case peek pattern (p + (i + 1)) of Inl f \<Rightarrow> Inl f
                | Inr d \<Rightarrow>
                    if d = CHR ''}'' then
                      Inr (e, (i + 1) + 1, compiled\<lparr>quantifiermax := UINT_FAST8_MAX\<rparr>)
                    else compilequantifier_max (compiled\<lparr>quantifiermax := 0\<rparr>) pattern p (i + 1) e)
             else if c = CHR ''}'' then
               Inr (e, i + 1, compiled\<lparr>quantifiermax := quantifiermin compiled\<rparr>)
             else Inr (e, 0, compiled\<lparr>quantifiermin := 1, quantifiermax := 1\<rparr>))
          else compilequantifier_max (compiled\<lparr>quantifiermax := 0\<rparr>) pattern p i e)"
  by pat_completeness auto
termination
  by (relation "measure (\<lambda>(compiled, pattern, p, i, e). length pattern - (p + i))")
     (auto simp: peek_def split: if_splits)

declare compilequantifier_min.simps [simp del]

definition compilequantifier ::
  "re_Token \<Rightarrow> string \<Rightarrow> nat \<Rightarrow> errno \<Rightarrow> (errno \<times> nat \<times> re_Token) res" where
  "compilequantifier compiled pattern p e =
     (case peek pattern p of Inl f \<Rightarrow> Inl f
      | Inr c \<Rightarrow>
          (case find_pattern c quantifiers 0 of
             Some i \<Rightarrow>
               Inr (e, 1, compiled\<lparr>quantifiermin := fst (snd (quantifiers ! i)),
                                   quantifiermax := snd (snd (quantifiers ! i))\<rparr>)
           | None \<Rightarrow>
               if c \<noteq> CHR ''{'' then Inr (e, 0, compiled\<lparr>quantifiermin := 1, quantifiermax := 1\<rparr>)
               else compilequantifier_min
                      (compiled\<lparr>quantifiermin := 0, quantifiermax := 1\<rparr>) pattern p 1 e))"

definition compilegreedy ::
  "re_Token \<Rightarrow> string \<Rightarrow> nat \<Rightarrow> errno \<Rightarrow> (errno \<times> nat \<times> re_Token) res" where
  "compilegreedy compiled pattern p e =
     (case peek pattern p of Inl f \<Rightarrow> Inl f
      | Inr c \<Rightarrow> if c = CHR ''?'' then Inr (e, 1, compiled\<lparr>greedy := False\<rparr>)
                 else Inr (e, 0, compiled\<lparr>greedy := True\<rparr>))"

definition compileatomic ::
  "re_Token \<Rightarrow> string \<Rightarrow> nat \<Rightarrow> errno \<Rightarrow> (errno \<times> nat \<times> re_Token) res" where
  "compileatomic compiled pattern p e =
     (case peek pattern p of Inl f \<Rightarrow> Inl f
      | Inr c \<Rightarrow> if c = CHR ''+'' then Inr (e, 1, compiled\<lparr>atomic := True\<rparr>)
                 else Inr (e, 0, compiled\<lparr>atomic := False\<rparr>))"

text \<open>\<^verbatim>\<open>re_compile\<close>; \<open>re_compile_loop\<close> is its \<^verbatim>\<open>while\<close> loop with the indices
  \<open>pi\<close> and \<open>ri\<close>, together with the code after the loop. The result is \<^verbatim>\<open>errno\<close>
  and the \<^verbatim>\<open>Regex\<close> as it is left, also when compilation fails.\<close>

function re_compile_loop ::
  "Regex \<Rightarrow> string \<Rightarrow> nat \<Rightarrow> nat \<Rightarrow> errno \<Rightarrow> (errno \<times> Regex) res" where
  "re_compile_loop compiled pattern pi ri e =
     (case peek pattern pi of Inl f \<Rightarrow> Inl f
      | Inr c \<Rightarrow>
          if c \<noteq> NUL \<and> ri < MAXTOKENS compiled then
            (case compileone (tokens compiled ! ri) pattern pi (cclbuf compiled) (ccli compiled)
                    ENONE of
               Inl f \<Rightarrow> Inl f
             | Inr (e1, n1, t1, cb1, ci1) \<Rightarrow>
                 if e1 \<noteq> ENONE then
                   Inr (e1, compiled\<lparr>tokens := (tokens compiled)[ri := t1],
                                     cclbuf := cb1, ccli := ci1\<rparr>)
                 else
                   (case compilequantifier t1 pattern (pi + n1) e1 of Inl f \<Rightarrow> Inl f
                    | Inr (e2, n2, t2) \<Rightarrow>
                        if e2 \<noteq> ENONE then
                          Inr (e2, compiled\<lparr>tokens := (tokens compiled)[ri := t2],
                                            cclbuf := cb1, ccli := ci1\<rparr>)
                        else
                          (case compilegreedy t2 pattern (pi + n1 + n2) e2 of Inl f \<Rightarrow> Inl f
                           | Inr (e3, n3, t3) \<Rightarrow>
                               if e3 \<noteq> ENONE then
                                 Inr (e3, compiled\<lparr>tokens := (tokens compiled)[ri := t3],
                                                   cclbuf := cb1, ccli := ci1\<rparr>)
                               else
                                 (case compileatomic t3 pattern (pi + n1 + n2 + n3) e3 of
                                    Inl f \<Rightarrow> Inl f
                                  | Inr (e4, n4, t4) \<Rightarrow>
                                      if e4 \<noteq> ENONE then
                                        Inr (e4, compiled\<lparr>tokens := (tokens compiled)[ri := t4],
                                                          cclbuf := cb1, ccli := ci1\<rparr>)
                                      else
                                        re_compile_loop
                                          (compiled\<lparr>tokens := (tokens compiled)[ri := t4],
                                                    cclbuf := cb1, ccli := ci1\<rparr>)
                                          pattern (pi + n1 + n2 + n3 + n4) (ri + 1) e4))))
          else if ri = MAXTOKENS compiled then Inr (ENOBUFS, compiled)
          else if ri > MAXTOKENS compiled then Inl OutOfBounds
          else
            Inr (e, compiled\<lparr>tokens :=
                      (tokens compiled)[ri := (tokens compiled ! ri)\<lparr>tk_type := TOKEN_NULLTERM\<rparr>]\<rparr>))"
  by pat_completeness auto
termination
  by (relation "measure (\<lambda>(compiled, pattern, pi, ri, e). length (tokens compiled) - ri)")
     (auto simp: MAXTOKENS_def)

declare re_compile_loop.simps [simp del]

definition re_compile :: "Regex \<Rightarrow> string \<Rightarrow> errno \<Rightarrow> (errno \<times> Regex) res" where
  "re_compile compiled pattern e = re_compile_loop (compiled\<lparr>ccli := 0\<rparr>) pattern 0 0 e"

text \<open>\<^verbatim>\<open>re_smatch\<close> and \<^verbatim>\<open>re_smatchg\<close>; \<open>regex\<close> is the local \<^verbatim>\<open>Regex regex\<close> as it is
  before the compilation (not initialised).\<close>

definition re_smatch ::
  "nat \<Rightarrow> Regex \<Rightarrow> string \<Rightarrow> string \<Rightarrow> nat option \<Rightarrow> errno
   \<Rightarrow> (errno \<times> nat \<times> nat option) res option" where
  "re_smatch fuel regex pattern text len e =
     (case re_compile regex pattern ENONE of
        Inl f \<Rightarrow> Some (Inl f)
      | Inr (e', regex') \<Rightarrow>
          if e' \<noteq> ENONE then Some (Inr (e', 0, len))
          else re_rmatch fuel regex' text len e')"

definition re_smatchg ::
  "nat \<Rightarrow> Regex \<Rightarrow> string \<Rightarrow> string \<Rightarrow> errno \<Rightarrow> (errno \<times> nat) res option" where
  "re_smatchg fuel regex pattern text e =
     (case re_compile regex pattern ENONE of
        Inl f \<Rightarrow> Some (Inl f)
      | Inr (e', regex') \<Rightarrow>
          if e' \<noteq> ENONE then Some (Inr (e', 0))
          else re_rmatchg fuel regex' text e')"

subsection \<open>A concrete Regex object\<close>

text \<open>The evaluations below need a \<^verbatim>\<open>Regex\<close> object to compile into: \<open>blank_regex m n\<close>
  has \<open>m\<close> token slots and \<open>n\<close> class-character slots, all bytes zero (taking the
  enumerators \<^verbatim>\<open>TOKEN_NULLTERM\<close> and \<^verbatim>\<open>CCL_NULLTERM\<close> as the first ones). The compiler
  writes every field it later reads, so the content does not matter.\<close>

definition blank_token :: re_Token where
  "blank_token = \<lparr>tk_type = TOKEN_NULLTERM, tk_meta = 0, tk_ch = NUL, tk_ccl = 0,
     quantifiermin = 0, quantifiermax = 0, greedy = False, atomic = False\<rparr>"

definition blank_classchar :: ClassChar where
  "blank_classchar = \<lparr>cc_type = CCL_NULLTERM, cc_meta = 0, cc_first = NUL, cc_last = NUL\<rparr>"

definition blank_regex :: "nat \<Rightarrow> nat \<Rightarrow> Regex" where
  "blank_regex m n =
     \<lparr>tokens = replicate m blank_token, cclbuf = replicate n blank_classchar, ccli = 0\<rparr>"

text \<open>A token for one literal byte, as \<^verbatim>\<open>compileone\<close> and the three functions after
  it leave it in a blank slot: the byte, the bounds, \<^verbatim>\<open>greedy\<close> and \<^verbatim>\<open>atomic\<close>.\<close>

definition tok_char :: "char \<Rightarrow> nat \<Rightarrow> nat \<Rightarrow> bool \<Rightarrow> bool \<Rightarrow> re_Token" where
  "tok_char c qmin qmax g a =
     \<lparr>tk_type = TOKEN_CHAR, tk_meta = 0, tk_ch = c, tk_ccl = 0,
      quantifiermin = qmin, quantifiermax = qmax, greedy = g, atomic = a\<rparr>"

text \<open>The compiled program of a \<^verbatim>\<open>Regex\<close>: the tokens before the first
  \<^verbatim>\<open>TOKEN_NULLTERM\<close>, the ones that \<^verbatim>\<open>re_print\<close> prints and the matcher runs.\<close>

definition program :: "Regex \<Rightarrow> re_Token list" where
  "program r = takeWhile (\<lambda>t. tk_type t \<noteq> TOKEN_NULLTERM) (tokens r)"


section \<open>Evaluation\<close>

text \<open>The defining equations, for evaluating the functions on concrete inputs with the
  simplifier.\<close>

lemmas ctype_defs = isspace_def isdigit_def isalnum_def iswordchar_def schar_def

lemmas validator_defs =
  matchwhitespace_def matchnotwhitespace_def matchdigit_def matchnotdigit_def
  matchwordchar_def matchnotwordchar_def matchnewline_def matchwordboundary_def
  matchnotwordboundary_def matchstart_def matchend_def matchany_def
  metabsls_def metachars_def quantifiers_def UINT_FAST8_MAX_def call_validator_def

lemmas match_defs =
  matchoneclc_def matchone_def matchcount_loop.simps matchcount_def
  re_rmatch_loop.simps re_rmatch_def re_rmatchg_def

lemmas compile_defs =
  compileoneclc_def compilerange_def compileone_class.simps compileone_def
  compilequantifier_max.simps compilequantifier_min.simps compilequantifier_def
  compilegreedy_def compileatomic_def re_compile_loop.simps re_compile_def
  MAXTOKENS_def CCLBUFLEN_def re_smatch_def re_smatchg_def

lemma replicate_numeral: "replicate (numeral k) x = x # replicate (pred_numeral k) x"
  by (simp add: numeral_eq_Suc)

lemmas blank_defs =
  blank_token_def blank_classchar_def blank_regex_def tok_char_def replicate_numeral

lemmas eval_defs = peek_def ctype_defs validator_defs match_defs compile_defs blank_defs

section \<open>The quantifier compiler\<close>

subsection \<open>Braces that are not a quantifier\<close>

text \<open>The inside of the braces, as far as \<^verbatim>\<open>compilequantifier\<close> reads it, is
  \<open>takeWhile (\<lambda>c. c \<noteq> CHR ''}'' \<and> c \<noteq> NUL)\<close> of the bytes after the opening brace. The
  second loop resets the bounds at any byte that is not a digit; the first loop at any
  byte that is neither a digit nor a comma.\<close>

lemma peek_in: "i < length s \<Longrightarrow> peek s i = Inr (s ! i)"
  by (simp add: peek_def)

lemma takeWhile_drop_empty: "length s \<le> i \<Longrightarrow> takeWhile P (drop i s) = []"
  by simp

lemma takeWhile_drop_step:
  "i < length s \<Longrightarrow> takeWhile P (drop i s) = (if P (s ! i) then s ! i # takeWhile P (drop (Suc i) s) else [])"
  by (simp add: Cons_nth_drop_Suc[symmetric])

lemma compilequantifier_max_reset:
  "\<exists>c \<in> set (takeWhile (\<lambda>c. c \<noteq> CHR ''}'' \<and> c \<noteq> NUL) (drop (p + i) pattern)). \<not> isdigit c
   \<Longrightarrow> compilequantifier_max tok pattern p i e
       = Inr (e, 0, tok\<lparr>quantifiermin := 1, quantifiermax := 1\<rparr>)"
proof (induction tok pattern p i e rule: compilequantifier_max.induct)
  case (1 compiled pattern p i e)
  have lt: "p + i < length pattern"
  proof (rule ccontr)
    assume "\<not> p + i < length pattern"
    then have "takeWhile (\<lambda>c. c \<noteq> CHR ''}'' \<and> c \<noteq> NUL) (drop (p + i) pattern) = []" by simp
    with "1.prems" show False by simp
  qed
  let ?c = "pattern ! (p + i)"
  have pk: "peek pattern (p + i) = Inr ?c" using lt by (rule peek_in)
  have ok: "?c \<noteq> CHR ''}''" "?c \<noteq> NUL"
    using "1.prems" takeWhile_drop_step[OF lt, of "\<lambda>c. c \<noteq> CHR ''}'' \<and> c \<noteq> NUL"]
    by (auto split: if_splits)
  show ?case
  proof (cases "isdigit ?c")
    case True
    have "\<exists>c \<in> set (takeWhile (\<lambda>c. c \<noteq> CHR ''}'' \<and> c \<noteq> NUL) (drop (p + (i + 1)) pattern)). \<not> isdigit c"
      using "1.prems" takeWhile_drop_step[OF lt, of "\<lambda>c. c \<noteq> CHR ''}'' \<and> c \<noteq> NUL"] ok True
      by auto
    from "1.IH"[OF pk ok(2) True this] show ?thesis
      using pk ok True by (subst compilequantifier_max.simps) simp
  next
    case False
    then show ?thesis
      using pk ok by (subst compilequantifier_max.simps) simp
  qed
qed

lemma compilequantifier_min_reset:
  "\<exists>c \<in> set (takeWhile (\<lambda>c. c \<noteq> CHR ''}'' \<and> c \<noteq> NUL) (drop (p + i) pattern)).
      \<not> isdigit c \<and> c \<noteq> CHR '',''
   \<Longrightarrow> compilequantifier_min tok pattern p i e
       = Inr (e, 0, tok\<lparr>quantifiermin := 1, quantifiermax := 1\<rparr>)"
proof (induction tok pattern p i e rule: compilequantifier_min.induct)
  case (1 compiled pattern p i e)
  let ?P = "\<lambda>c. c \<noteq> CHR ''}'' \<and> c \<noteq> NUL"
  have lt: "p + i < length pattern"
  proof (rule ccontr)
    assume "\<not> p + i < length pattern"
    then have "takeWhile ?P (drop (p + i) pattern) = []" by simp
    with "1.prems" show False by simp
  qed
  let ?c = "pattern ! (p + i)"
  have pk: "peek pattern (p + i) = Inr ?c" using lt by (rule peek_in)
  have ok: "?c \<noteq> CHR ''}''" "?c \<noteq> NUL"
    using "1.prems" takeWhile_drop_step[OF lt, of ?P]
    by (auto split: if_splits)
  have rest: "isdigit ?c \<or> ?c = CHR '','' \<Longrightarrow>
     \<exists>c \<in> set (takeWhile ?P (drop (p + (i + 1)) pattern)). \<not> isdigit c \<and> c \<noteq> CHR '',''"
    using "1.prems" takeWhile_drop_step[OF lt, of ?P] ok by auto
  show ?case
  proof (cases "isdigit ?c")
    case True
    from "1.IH"[OF pk ok(2) True] rest True show ?thesis
      using pk ok by (subst compilequantifier_min.simps) simp
  next
    case nd: False
    show ?thesis
    proof (cases "?c = CHR '',''")
      case True
      with rest obtain c where c: "c \<in> set (takeWhile ?P (drop (p + (i + 1)) pattern))"
        "\<not> isdigit c" by blast
      have lt': "p + (i + 1) < length pattern"
      proof (rule ccontr)
        assume "\<not> p + (i + 1) < length pattern"
        then have "takeWhile ?P (drop (p + (i + 1)) pattern) = []" by simp
        with c show False by simp
      qed
      have pk': "peek pattern (p + (i + 1)) = Inr (pattern ! (p + (i + 1)))"
        using lt' by (rule peek_in)
      have nb: "pattern ! (p + (i + 1)) \<noteq> CHR ''}''"
        using c takeWhile_drop_step[OF lt', of ?P] by (auto split: if_splits)
      have "compilequantifier_max (compiled\<lparr>quantifiermax := 0\<rparr>) pattern p (i + 1) e
            = Inr (e, 0, compiled\<lparr>quantifiermax := 0\<rparr>\<lparr>quantifiermin := 1, quantifiermax := 1\<rparr>)"
        using c by (intro compilequantifier_max_reset) blast
      then show ?thesis
        using pk ok nd True pk' nb by (subst compilequantifier_min.simps) simp
    next
      case False
      then show ?thesis
        using pk ok nd by (subst compilequantifier_min.simps) simp
    qed
  qed
qed

lemma find_pattern_quantifiers_brace: "find_pattern (CHR ''{'') quantifiers 0 = None"
  by (simp add: quantifiers_def)


text \<open>
  Claim C4, as the code has it. When an opening brace follows an atom and the inside of
  the braces (the bytes up to the first closing brace or the end of the pattern)
  contains a byte that is neither a digit nor a comma, \<^verbatim>\<open>compilequantifier\<close> eats no
  byte, leaves \<^verbatim>\<open>errno\<close> alone and leaves the token with the default bounds
  \<open>quantifiermin = quantifiermax = 1\<close> (so that this token has
  \<open>quantifiermin \<le> quantifiermax\<close>).
\<close>

theorem compilequantifier_malformed:
  assumes "p < length pattern" and "pattern ! p = CHR ''{''"
    and "\<exists>c \<in> set (takeWhile (\<lambda>c. c \<noteq> CHR ''}'' \<and> c \<noteq> NUL) (drop (p + 1) pattern)).
           \<not> isdigit c \<and> c \<noteq> CHR '',''"
  shows "compilequantifier tok pattern p e
           = Inr (e, 0, tok\<lparr>quantifiermin := 1, quantifiermax := 1\<rparr>)"
proof -
  have "compilequantifier_min (tok\<lparr>quantifiermin := 0, quantifiermax := 1\<rparr>) pattern p 1 e
        = Inr (e, 0, tok\<lparr>quantifiermin := 0, quantifiermax := 1\<rparr>\<lparr>quantifiermin := 1, quantifiermax := 1\<rparr>)"
    using assms(3) by (intro compilequantifier_min_reset) simp
  then show ?thesis
    using assms(1,2) by (simp add: compilequantifier_def peek_in find_pattern_quantifiers_brace)
qed


text \<open>The theorem at the pattern \<^verbatim>\<open>{1x}\<close>.\<close>

theorem compilequantifier_malformed_witness:
  "(0::nat) < length ''{1x}'' \<and> ''{1x}'' ! 0 = CHR ''{''
   \<and> (\<exists>c \<in> set (takeWhile (\<lambda>c. c \<noteq> CHR ''}'' \<and> c \<noteq> NUL) (drop (0 + 1) ''{1x}'')).
           \<not> isdigit c \<and> c \<noteq> CHR '','')
   \<and> compilequantifier blank_token ''{1x}'' 0 ENONE
           = Inr (ENONE, 0, blank_token\<lparr>quantifiermin := 1, quantifiermax := 1\<rparr>)"
proof -
  have a: "(0::nat) < length ''{1x}''" by simp
  have b: "''{1x}'' ! 0 = CHR ''{''" by simp
  have c: "\<exists>c \<in> set (takeWhile (\<lambda>c. c \<noteq> CHR ''}'' \<and> c \<noteq> NUL) (drop (0 + 1) ''{1x}'')).
           \<not> isdigit c \<and> c \<noteq> CHR '',''"
    by (simp add: isdigit_def)
  from compilequantifier_malformed[OF a b c, of blank_token ENONE] a b c show ?thesis by blast
qed


text \<open>
  Claim C4 as stated goes on: "consequently every token of a successfully compiled
  program satisfies qmin \<le> qmax". The pattern \<^verbatim>\<open>a{3,2}\<close> compiles without error
  and its token has \<open>quantifiermin = 3\<close> and \<open>quantifiermax = 2\<close>: the compiler
  stores the two numbers as they are written and compares them nowhere.
\<close>

theorem compile_reversed_bounds:
  "(case re_compile (blank_regex 2 1) ''a{3,2}'' ENONE of
      Inl f \<Rightarrow> False
    | Inr (e, r) \<Rightarrow>
        e = ENONE \<and> tk_type (tokens r ! 0) = TOKEN_CHAR \<and> tk_type (tokens r ! 1) = TOKEN_NULLTERM
        \<and> quantifiermin (tokens r ! 0) = 3 \<and> quantifiermax (tokens r ! 0) = 2
        \<and> \<not> quantifiermin (tokens r ! 0) \<le> quantifiermax (tokens r ! 0))"
  by (simp add: eval_defs)

section \<open>Character classes\<close>

subsection \<open>The end of a range\<close>












subsection \<open>A range that ends in an escaped byte\<close>

text \<open>
  Claim C3 says that after a class character, a dash, a backslash and a byte \<open>x\<close> (no
  predicate) the compiler eats exactly 3 bytes, so that the class goes on at the byte
  after \<open>x\<close>. The code returns 4 from \<^verbatim>\<open>compilerange\<close>. In the pattern
  \<^verbatim>\<open>[a-\]x]\<close> the class character \<^verbatim>\<open>a\<close> gets \<^verbatim>\<open>last = ']'\<close>, the byte \<^verbatim>\<open>x\<close> is
  skipped, and the class is closed by the bracket after it: the buffer holds one range
  and the sentinel, and the text \<^verbatim>\<open>x\<close> does not match.
\<close>

theorem compilerange_escape_eats_four:
  "compilerange (blank_classchar\<lparr>cc_type := CCL_CHARRANGE, cc_first := CHR ''a''\<rparr>)
      (''[a-'' @ [BACKSLASH] @ '']x]'') 2 ENONE
     = Inr (ENONE, 4, blank_classchar\<lparr>cc_type := CCL_CHARRANGE, cc_first := CHR ''a'',
                                     cc_last := CHR '']''\<rparr>)
   \<and> (case re_compile (blank_regex 2 3) (''[a-'' @ [BACKSLASH] @ '']x]'') ENONE of
        Inl f \<Rightarrow> False
      | Inr (e, r) \<Rightarrow>
          e = ENONE \<and> tk_type (tokens r ! 0) = TOKEN_CHARCLASS \<and> tk_ccl (tokens r ! 0) = 0
          \<and> tk_type (tokens r ! 1) = TOKEN_NULLTERM \<and> ccli r = 2
          \<and> cc_type (cclbuf r ! 0) = CCL_CHARRANGE \<and> cc_first (cclbuf r ! 0) = CHR ''a''
          \<and> cc_last (cclbuf r ! 0) = CHR '']'' \<and> cc_type (cclbuf r ! 1) = CCL_NULLTERM)
   \<and> re_smatch (Suc 0) (blank_regex 2 3) (''[a-'' @ [BACKSLASH] @ '']x]'') ''x'' (Some 7) ENONE
       = Some (Inr (EINVAL, 0, Some 7))"
  by (simp add: eval_defs)

section \<open>The size of the program\<close>

text \<open>The four steps of a slot leave the type that \<^verbatim>\<open>compileone\<close> wrote, and
  \<^verbatim>\<open>compileone\<close> writes no \<^verbatim>\<open>TOKEN_NULLTERM\<close> at a byte that is not NUL.\<close>

lemma compilequantifier_max_type:
  "compilequantifier_max tok pattern p i e = Inr (e', n, tok') \<Longrightarrow> tk_type tok' = tk_type tok"
proof (induction tok pattern p i e rule: compilequantifier_max.induct)
  case (1 compiled pattern p i e)
  show ?case
  proof (cases "peek pattern (p + i)")
    case (Inl f)
    with "1.prems" show ?thesis by (subst (asm) compilequantifier_max.simps) simp
  next
    case (Inr c)
    show ?thesis
    proof (cases "c \<noteq> NUL \<and> isdigit c")
      case True
      with "1.prems" Inr have "compilequantifier_max
                 (compiled\<lparr>quantifiermax :=
                    ((quantifiermax compiled * 10) mod 256 + (of_char c - 48)) mod 256\<rparr>)
                 pattern p (i + 1) e = Inr (e', n, tok')"
        by (subst (asm) compilequantifier_max.simps) simp
      from "1.IH"[OF Inr _ _ this] True show ?thesis by simp
    next
      case False
      with "1.prems" Inr show ?thesis
        by (subst (asm) compilequantifier_max.simps) (auto split: if_splits)
    qed
  qed
qed

lemma compilequantifier_min_type:
  "compilequantifier_min tok pattern p i e = Inr (e', n, tok') \<Longrightarrow> tk_type tok' = tk_type tok"
proof (induction tok pattern p i e rule: compilequantifier_min.induct)
  case (1 compiled pattern p i e)
  show ?case
  proof (cases "peek pattern (p + i)")
    case (Inl f)
    with "1.prems" show ?thesis by (subst (asm) compilequantifier_min.simps) simp
  next
    case (Inr c)
    show ?thesis
    proof (cases "c \<noteq> NUL \<and> isdigit c")
      case True
      with "1.prems" Inr have "compilequantifier_min
                 (compiled\<lparr>quantifiermin :=
                    ((quantifiermin compiled * 10) mod 256 + (of_char c - 48)) mod 256\<rparr>)
                 pattern p (i + 1) e = Inr (e', n, tok')"
        by (subst (asm) compilequantifier_min.simps) simp
      from "1.IH"[OF Inr _ _ this] True show ?thesis by simp
    next
      case False
      from "1.prems" Inr have unf:
        "(if c \<noteq> NUL then
            (if isdigit c then
               compilequantifier_min
                 (compiled\<lparr>quantifiermin :=
                    ((quantifiermin compiled * 10) mod 256 + (of_char c - 48)) mod 256\<rparr>)
                 pattern p (i + 1) e
             else if c = CHR '','' then
               (case peek pattern (p + (i + 1)) of Inl f \<Rightarrow> Inl f
                | Inr d \<Rightarrow>
                    if d = CHR ''}'' then
                      Inr (e, (i + 1) + 1, compiled\<lparr>quantifiermax := UINT_FAST8_MAX\<rparr>)
                    else compilequantifier_max (compiled\<lparr>quantifiermax := 0\<rparr>) pattern p (i + 1) e)
             else if c = CHR ''}'' then
               Inr (e, i + 1, compiled\<lparr>quantifiermax := quantifiermin compiled\<rparr>)
             else Inr (e, 0, compiled\<lparr>quantifiermin := 1, quantifiermax := 1\<rparr>))
          else compilequantifier_max (compiled\<lparr>quantifiermax := 0\<rparr>) pattern p i e)
         = Inr (e', n, tok')"
        by (subst (asm) compilequantifier_min.simps) simp
      show ?thesis
      proof (cases "c = NUL")
        case True
        with unf have "compilequantifier_max (compiled\<lparr>quantifiermax := 0\<rparr>) pattern p i e
                       = Inr (e', n, tok')" by simp
        from compilequantifier_max_type[OF this] show ?thesis by simp
      next
        case nn: False
        show ?thesis
        proof (cases "c = CHR '',''")
          case True
          show ?thesis
          proof (cases "peek pattern (p + (i + 1))")
            case (Inl f)
            with unf nn False True show ?thesis by simp
          next
            case inr: (Inr d)
            show ?thesis
            proof (cases "d = CHR ''}''")
              case True
              with unf nn False \<open>c = CHR '',''\<close> inr show ?thesis by auto
            next
              case nb: False
              with unf nn False True inr
              have "compilequantifier_max (compiled\<lparr>quantifiermax := 0\<rparr>) pattern p (i + 1) e
                       = Inr (e', n, tok')" by simp
              from compilequantifier_max_type[OF this] show ?thesis by simp
            qed
          qed
        next
          case False
          with unf nn \<open>\<not> (c \<noteq> NUL \<and> isdigit c)\<close> show ?thesis
            by (auto split: if_splits)
        qed
      qed
    qed
  qed
qed

lemma compilequantifier_type:
  assumes a: "compilequantifier tok pattern p e = Inr (e', n, tok')"
  shows "tk_type tok' = tk_type tok"
proof (cases "peek pattern p")
  case (Inl f)
  with a show ?thesis by (simp add: compilequantifier_def)
next
  case (Inr c)
  show ?thesis
  proof (cases "find_pattern c quantifiers 0")
    case (Some i)
    with a Inr show ?thesis by (auto simp add: compilequantifier_def)
  next
    case None
    show ?thesis
    proof (cases "c = CHR ''{''")
      case True
      with a Inr None
      have "compilequantifier_min (tok\<lparr>quantifiermin := 0, quantifiermax := 1\<rparr>) pattern p 1 e
            = Inr (e', n, tok')"
        by (simp add: compilequantifier_def)
      from compilequantifier_min_type[OF this] show ?thesis by simp
    next
      case False
      with a Inr None show ?thesis by (auto simp add: compilequantifier_def)
    qed
  qed
qed

lemma compilegreedy_type:
  "compilegreedy tok pattern p e = Inr (e', n, tok') \<Longrightarrow> tk_type tok' = tk_type tok"
  by (auto simp: compilegreedy_def split: sum.splits if_splits)

lemma compileatomic_type:
  "compileatomic tok pattern p e = Inr (e', n, tok') \<Longrightarrow> tk_type tok' = tk_type tok"
  by (auto simp: compileatomic_def split: sum.splits if_splits)

lemma compileone_type:
  assumes a: "compileone tok pattern p cb ci e = Inr (e', n, tok', cb', ci')"
    and pk: "peek pattern p = Inr c" and nn: "c \<noteq> NUL" and ok: "e' = ENONE"
  shows "tk_type tok' \<noteq> TOKEN_NULLTERM"
proof (cases "c = BACKSLASH")
  case True
  show ?thesis
  proof (cases "peek pattern (p + 1)")
    case (Inl f)
    with a pk True show ?thesis by (simp add: compileone_def)
  next
    case (Inr d)
    show ?thesis
    proof (cases "d = NUL")
      case True
      with a pk \<open>c = BACKSLASH\<close> Inr ok show ?thesis
        by (simp add: compileone_def)
    next
      case False
      with a pk True Inr show ?thesis
        by (cases "find_pattern d metabsls 0") (auto simp add: compileone_def)
    qed
  qed
next
  case nb: False
  show ?thesis
  proof (cases "c = CHR ''[''")
    case True
    show ?thesis
    proof (cases "peek pattern (p + 1)")
      case (Inl f)
      with a pk True show ?thesis by (simp add: compileone_def)
    next
      case (Inr d)
      with a pk True show ?thesis
        by (cases "compileone_class pattern p (if d = CHR ''^'' then 2 else 1) cb ci e")
           (auto simp add: compileone_def Let_def split: if_splits)
    qed
  next
    case False
    with a pk nb nn show ?thesis
      by (cases "find_pattern c metachars 0") (auto simp add: compileone_def)
  qed
qed

lemma re_compile_loop_full:
  "pi \<le> length pattern \<Longrightarrow>
   re_compile_loop compiled pattern pi (MAXTOKENS compiled) e = Inr (ENOBUFS, compiled)"
  by (subst re_compile_loop.simps) (simp add: peek_def)

lemma program_length:
  "k < length ts \<Longrightarrow> \<forall>j<k. tk_type (ts ! j) \<noteq> TOKEN_NULLTERM \<Longrightarrow> tk_type (ts ! k) = TOKEN_NULLTERM
   \<Longrightarrow> length (takeWhile (\<lambda>t. tk_type t \<noteq> TOKEN_NULLTERM) ts) = k"
proof (induction ts arbitrary: k)
  case Nil
  then show ?case by simp
next
  case (Cons t ts)
  show ?case
  proof (cases k)
    case 0
    with Cons.prems show ?thesis by simp
  next
    case (Suc k')
    from Cons.prems Suc have "tk_type t \<noteq> TOKEN_NULLTERM" by auto
    moreover from Cons.prems Suc have "length (takeWhile (\<lambda>t. tk_type t \<noteq> TOKEN_NULLTERM) ts) = k'"
      by (intro Cons.IH) auto
    ultimately show ?thesis using Suc by simp
  qed
qed

lemma re_compile_loop_success:
  "re_compile_loop compiled pattern pi ri e = Inr (ENONE, r)
   \<Longrightarrow> \<forall>j<ri. tk_type (tokens compiled ! j) \<noteq> TOKEN_NULLTERM
   \<Longrightarrow> \<exists>k. ri \<le> k \<and> k < MAXTOKENS compiled \<and> MAXTOKENS r = MAXTOKENS compiled
          \<and> (\<forall>j<k. tk_type (tokens r ! j) \<noteq> TOKEN_NULLTERM)
          \<and> tk_type (tokens r ! k) = TOKEN_NULLTERM"
proof (induction compiled pattern pi ri e rule: re_compile_loop.induct)
  case (1 compiled pattern pi ri e)
  show ?case
  proof (cases "peek pattern pi")
    case (Inl f)
    with "1.prems" show ?thesis by (subst (asm) re_compile_loop.simps) simp
  next
    case (Inr c)
    show ?thesis
    proof (cases "c \<noteq> NUL \<and> ri < MAXTOKENS compiled")
      case False
      with "1.prems" Inr show ?thesis
        by (subst (asm) re_compile_loop.simps)
           (auto simp: MAXTOKENS_def nth_list_update split: if_splits)
    next
      case True
      show ?thesis
      proof (cases "compileone (tokens compiled ! ri) pattern pi (cclbuf compiled) (ccli compiled) ENONE")
        case (Inl f)
        with "1.prems" Inr True show ?thesis by (subst (asm) re_compile_loop.simps) simp
      next
        case r1: (Inr x1)
        obtain e1 n1 t1 cb1 ci1 where x1: "x1 = (e1, n1, t1, cb1, ci1)" by (cases x1)
        show ?thesis
        proof (cases "e1 = ENONE")
          case False
          with "1.prems" Inr True r1 x1 show ?thesis
            by (subst (asm) re_compile_loop.simps) simp
        next
          case ok1: True
          show ?thesis
          proof (cases "compilequantifier t1 pattern (pi + n1) e1")
            case (Inl f)
            with "1.prems" Inr True r1 x1 ok1 show ?thesis
              by (subst (asm) re_compile_loop.simps) simp
          next
            case r2: (Inr x2)
            obtain e2 n2 t2 where x2: "x2 = (e2, n2, t2)" by (cases x2)
            show ?thesis
            proof (cases "e2 = ENONE")
              case False
              with "1.prems" Inr True r1 x1 ok1 r2 x2 show ?thesis
                by (subst (asm) re_compile_loop.simps) simp
            next
              case ok2: True
              show ?thesis
              proof (cases "compilegreedy t2 pattern (pi + n1 + n2) e2")
                case (Inl f)
                with "1.prems" Inr True r1 x1 ok1 r2 x2 ok2 show ?thesis
                  by (subst (asm) re_compile_loop.simps) simp
              next
                case r3: (Inr x3)
                obtain e3 n3 t3 where x3: "x3 = (e3, n3, t3)" by (cases x3)
                show ?thesis
                proof (cases "e3 = ENONE")
                  case False
                  with "1.prems" Inr True r1 x1 ok1 r2 x2 ok2 r3 x3 show ?thesis
                    by (subst (asm) re_compile_loop.simps) simp
                next
                  case ok3: True
                  show ?thesis
                  proof (cases "compileatomic t3 pattern (pi + n1 + n2 + n3) e3")
                    case (Inl f)
                    with "1.prems" Inr True r1 x1 ok1 r2 x2 ok2 r3 x3 ok3 show ?thesis
                      by (subst (asm) re_compile_loop.simps) simp
                  next
                    case r4: (Inr x4)
                    obtain e4 n4 t4 where x4: "x4 = (e4, n4, t4)" by (cases x4)
                    show ?thesis
                    proof (cases "e4 = ENONE")
                      case False
                      with "1.prems" Inr True r1 x1 ok1 r2 x2 ok2 r3 x3 ok3 r4 x4 show ?thesis
                        by (subst (asm) re_compile_loop.simps) simp
                    next
                      case ok4: True
                      let ?compiled' = "compiled\<lparr>tokens := (tokens compiled)[ri := t4],
                                                    cclbuf := cb1, ccli := ci1\<rparr>"
                      have rec: "re_compile_loop ?compiled' pattern (pi + n1 + n2 + n3 + n4) (ri + 1) e4
                                 = Inr (ENONE, r)"
                        using "1.prems"(1) Inr True r1 x1 ok1 r2 x2 ok2 r3 x3 ok3 r4 x4 ok4
                        by (subst (asm) re_compile_loop.simps) simp
                      have t4: "tk_type t4 \<noteq> TOKEN_NULLTERM"
                        using compileone_type[OF r1[unfolded x1] Inr _ ok1]
                          compilequantifier_type[OF r2[unfolded x2]]
                          compilegreedy_type[OF r3[unfolded x3]]
                          compileatomic_type[OF r4[unfolded x4]] True
                        by simp
                      have inv: "\<forall>j<ri + 1. tk_type (tokens ?compiled' ! j) \<noteq> TOKEN_NULLTERM"
                        using "1.prems"(2) t4 True
                        by (auto simp: MAXTOKENS_def nth_list_update)
                      have n1: "\<not> e1 \<noteq> ENONE" and n2: "\<not> e2 \<noteq> ENONE"
                        and n3: "\<not> e3 \<noteq> ENONE" and n4: "\<not> e4 \<noteq> ENONE"
                        using ok1 ok2 ok3 ok4 by simp_all
                      from "1.IH"[OF Inr True r1 x1[symmetric] refl refl refl n1
                                     r2 x2[symmetric] refl n2 r3 x3[symmetric] refl n3
                                     r4 x4[symmetric] refl n4 rec inv]
                      obtain k where k: "ri + 1 \<le> k" "k < MAXTOKENS ?compiled'"
                        "MAXTOKENS r = MAXTOKENS ?compiled'"
                        "\<forall>j<k. tk_type (tokens r ! j) \<noteq> TOKEN_NULLTERM"
                        "tk_type (tokens r ! k) = TOKEN_NULLTERM"
                        by blast
                      show ?thesis
                        using k by (intro exI[of _ k]) (simp add: MAXTOKENS_def)
                    qed
                  qed
                qed
              qed
            qed
          qed
        qed
      qed
    qed
  qed
qed

text \<open>
  Claim C6, as the code has it. When the slot index has reached \<^verbatim>\<open>MAXTOKENS\<close>,
  \<^verbatim>\<open>re_compile\<close> reports \<^verbatim>\<open>ENOBUFS\<close>, whether the pattern is exhausted there or not
  (first part, on the loop at any position \<open>pi\<close> of the pattern, its end included).
  A compilation without error leaves a program of fewer than \<^verbatim>\<open>MAXTOKENS\<close> tokens,
  with \<^verbatim>\<open>TOKEN_NULLTERM\<close> in the slot after the last of them.
\<close>

theorem re_compile_overflow:
  "(pi \<le> length pattern \<longrightarrow>
      re_compile_loop compiled pattern pi (MAXTOKENS compiled) e = Inr (ENOBUFS, compiled))
   \<and> (re_compile regex pattern e = Inr (ENONE, r) \<longrightarrow>
        length (program r) < MAXTOKENS regex
        \<and> MAXTOKENS r = MAXTOKENS regex
        \<and> tk_type (tokens r ! length (program r)) = TOKEN_NULLTERM)"
proof (intro conjI impI)
  assume "pi \<le> length pattern"
  then show "re_compile_loop compiled pattern pi (MAXTOKENS compiled) e = Inr (ENOBUFS, compiled)"
    by (rule re_compile_loop_full)
next
  assume a: "re_compile regex pattern e = Inr (ENONE, r)"
  then have "re_compile_loop (regex\<lparr>ccli := 0\<rparr>) pattern 0 0 e = Inr (ENONE, r)"
    by (simp add: re_compile_def)
  from re_compile_loop_success[OF this]
  obtain k where k: "k < MAXTOKENS (regex\<lparr>ccli := 0\<rparr>)"
    "MAXTOKENS r = MAXTOKENS (regex\<lparr>ccli := 0\<rparr>)"
    "\<forall>j<k. tk_type (tokens r ! j) \<noteq> TOKEN_NULLTERM"
    "tk_type (tokens r ! k) = TOKEN_NULLTERM"
    by auto
  have len: "length (program r) = k"
    unfolding program_def using k by (intro program_length) (simp_all add: MAXTOKENS_def)
  show "length (program r) < MAXTOKENS regex" using k len by (simp add: MAXTOKENS_def)
  show "MAXTOKENS r = MAXTOKENS regex" using k by (simp add: MAXTOKENS_def)
  show "tk_type (tokens r ! length (program r)) = TOKEN_NULLTERM" using k len by simp
qed

text \<open>The theorem at the pattern \<^verbatim>\<open>ab\<close>: at its end with 2 slots, and compiled with
  3 slots.\<close>

theorem re_compile_overflow_witness:
  "(2::nat) \<le> length ''ab''
   \<and> re_compile_loop (blank_regex 2 1) ''ab'' 2 (MAXTOKENS (blank_regex 2 1)) ENONE
       = Inr (ENOBUFS, blank_regex 2 1)
   \<and> re_compile (blank_regex 3 1) ''ab'' ENONE
       = Inr (ENONE, \<lparr>tokens = [tok_char (CHR ''a'') 1 1 True False,
                                 tok_char (CHR ''b'') 1 1 True False, blank_token],
                      cclbuf = [blank_classchar], ccli = 0\<rparr>)
   \<and> length (program \<lparr>tokens = [tok_char (CHR ''a'') 1 1 True False,
                                 tok_char (CHR ''b'') 1 1 True False, blank_token],
                       cclbuf = [blank_classchar], ccli = 0\<rparr>) < MAXTOKENS (blank_regex 3 1)"
proof -
  let ?r = "\<lparr>tokens = [tok_char (CHR ''a'') 1 1 True False,
                        tok_char (CHR ''b'') 1 1 True False, blank_token],
             cclbuf = [blank_classchar], ccli = 0\<rparr>"
  have a: "(2::nat) \<le> length ''ab''" by simp
  have b: "re_compile (blank_regex 3 1) ''ab'' ENONE = Inr (ENONE, ?r)"
    by (simp add: eval_defs)
  from re_compile_overflow[where pi = 2 and pattern = "''ab''" and compiled = "blank_regex 2 1"
        and e = ENONE and regex = "blank_regex 3 1" and r = ?r] a b
  show ?thesis by blast
qed

text \<open>
  Claim C6 as stated lets a pattern compile whose bytes are exhausted when the slot
  index reaches \<^verbatim>\<open>MAXTOKENS\<close>. With 2 slots the pattern \<^verbatim>\<open>ab\<close> is such a pattern:
  both tokens are compiled, the pattern is at its end, and \<^verbatim>\<open>re_compile\<close> reports
  \<^verbatim>\<open>ENOBUFS\<close>, there being no slot for \<^verbatim>\<open>TOKEN_NULLTERM\<close>.
\<close>

theorem compile_exactly_maxtokens:
  "(case re_compile (blank_regex 2 1) ''ab'' ENONE of
      Inl f \<Rightarrow> False
    | Inr (e, r) \<Rightarrow>
        e = ENOBUFS \<and> MAXTOKENS r = 2
        \<and> tokens r = [tok_char (CHR ''a'') 1 1 True False, tok_char (CHR ''b'') 1 1 True False])"
  by (simp add: eval_defs)

section \<open>Matching\<close>

subsection \<open>An inverted class at the end of the text\<close>

text \<open>
  Claim C2 says that an inverted class fails at the terminator. The code has no such
  test: \<^verbatim>\<open>[^a]\<close> at the NUL that ends the text finds that no class character
  matches and succeeds with one byte eaten, so that the position passes the end of the
  text. Through \<^verbatim>\<open>re_smatch\<close>: the pattern \<^verbatim>\<open>b[^a]\<close> is reported to match the text
  \<^verbatim>\<open>b\<close>.
\<close>

theorem invclass_eats_terminator:
  "(case re_compile (blank_regex 2 2) ''[^a]'' ENONE of
      Inl f \<Rightarrow> False
    | Inr (e, r) \<Rightarrow>
        e = ENONE \<and> tk_type (tokens r ! 0) = TOKEN_INVCHARCLASS
        \<and> peek '''' 0 = Inr NUL
        \<and> matchone (cclbuf r) (tokens r ! 0) '''' 0 ENONE = Inr (ENONE, 1))
   \<and> re_smatch (Suc 0) (blank_regex 3 2) ''b[^a]'' ''b'' (Some 7) ENONE
       = Some (Inr (ENONE, 0, Some 0))"
  by (simp add: eval_defs)

subsection \<open>Atomic tokens\<close>

text \<open>When the second loop of \<^verbatim>\<open>matchpattern\<close> fails, the start position it was
  given does not show in the result.\<close>

lemma retry_fail_starti:
  "matchpattern_retry fuel cb p ps text s oldi count e = Some (Inr (e2, m)) \<Longrightarrow> e2 \<noteq> ENONE
   \<Longrightarrow> matchpattern_retry fuel cb p ps text s' oldi count e = Some (Inr (e2, m))"
proof (induction fuel arbitrary: count e)
  case 0
  then show ?case by simp
next
  case (Suc fuel)
  show ?case
  proof (cases "matchcount cb p count text oldi e")
    case (Inl f)
    with Suc.prems show ?thesis by simp
  next
    case (Inr r)
    obtain e1 c1 n where r: "r = (e1, c1, n)" by (cases r)
    show ?thesis
    proof (cases "c1 < quantifiermin p")
      case True
      with Suc.prems Inr r show ?thesis by simp
    next
      case nlt: False
      show ?thesis
      proof (cases "matchpattern fuel cb ps text (oldi + n) ENONE")
        case None
        with Suc.prems Inr r nlt show ?thesis by simp
      next
        case (Some a)
        show ?thesis
        proof (cases a)
          case (Inl f)
          with Suc.prems Inr r nlt Some show ?thesis by simp
        next
          case inr: (Inr b)
          obtain e3 m3 where b: "b = (e3, m3)" by (cases b)
          show ?thesis
          proof (cases "e3 = ENONE")
            case True
            with Suc.prems Inr r nlt Some inr b show ?thesis by simp
          next
            case False
            with Suc.prems Inr r nlt Some inr b Suc.IH show ?thesis
              by (auto split: if_splits)
          qed
        qed
      qed
    qed
  qed
qed

text \<open>The first loop of \<^verbatim>\<open>matchpattern\<close> at a token that is atomic or of fixed count,
  wherever in the program the loop has come to it: one call of \<^verbatim>\<open>matchcount\<close> with
  the count the token starts from, then either the return (fewer than
  \<^verbatim>\<open>quantifiermin\<close> repetitions) or the next token. The token never reaches the loop
  that retries counts.\<close>

lemma matchpattern_iter_step:
  assumes "atomic p \<or> quantifiermin p = quantifiermax p" and "tk_type p \<noteq> TOKEN_NULLTERM"
    and "matchcount cb p (if greedy p then quantifiermax p else quantifiermin p) text i e
         = Inr (e1, count, n)"
  shows "matchpattern_iter cb (p # ps) text i e
         = (if count < quantifiermin p then Inr (Returned e1 0)
            else matchpattern_iter cb ps text (i + n) e1)"
  using assms by auto

lemma matchpattern_fail_cons:
  assumes "atomic p \<or> quantifiermin p = quantifiermax p" and "tk_type p \<noteq> TOKEN_NULLTERM"
    and "matchcount cb p (if greedy p then quantifiermax p else quantifiermin p) text i e = Inr (e1, count, n)"
    and "quantifiermin p \<le> count"
    and "matchpattern fuel cb ps text (i + n) e1 = Some (Inr (e2, m))"
    and "e2 \<noteq> ENONE"
  shows "matchpattern fuel cb (p # ps) text i e = Some (Inr (e2, m))"
proof (cases fuel)
  case 0
  with assms show ?thesis by simp
next
  case (Suc k)
  have iter: "matchpattern_iter cb (p # ps) text i e = matchpattern_iter cb ps text (i + n) e1"
    using matchpattern_iter_step[OF assms(1-3), of ps] assms(4) by simp
  show ?thesis
  proof (cases ps)
    case Nil
    with assms Suc show ?thesis by simp
  next
    case (Cons q qs)
    show ?thesis
    proof (cases "tk_type q = TOKEN_NULLTERM")
      case True
      with assms(2-6) Suc Cons iter show ?thesis by simp
    next
      case False
      show ?thesis
      proof (cases "matchpattern_iter cb ps text (i + n) e1")
        case (Inl f)
        with assms(5) assms(2) Suc Cons False iter show ?thesis by simp
      next
        case (Inr it)
        show ?thesis
        proof (cases it)
          case (Returned e' r)
          with assms(5) assms(2) Suc Cons False iter Inr show ?thesis by simp
        next
          case (Broke p' ps' oldi e')
          with assms(5) assms(2) Suc Cons False Inr
          have "matchpattern_retry k cb p' ps' text (i + n) oldi
                  (if greedy p' then quantifiermax p' else quantifiermin p') e' = Some (Inr (e2, m))"
            by simp
          from retry_fail_starti[OF this assms(6), of i]
          show ?thesis using assms(2) Suc iter Inr Broke by simp
        qed
      qed
    qed
  qed
qed

lemma compile_a_plusplus_a:
  "re_compile (blank_regex 3 1) ''a++a'' ENONE
   = Inr (ENONE, \<lparr>tokens = [tok_char (CHR ''a'') 1 255 True True,
                             tok_char (CHR ''a'') 1 1 True False, blank_token],
                  cclbuf = [blank_classchar], ccli = 0\<rparr>)"
  by (simp add: eval_defs)

lemma compile_b_a_plusplus_a:
  "re_compile (blank_regex 4 1) ''ba++a'' ENONE
   = Inr (ENONE, \<lparr>tokens = [tok_char (CHR ''b'') 1 1 True False,
                             tok_char (CHR ''a'') 1 255 True True,
                             tok_char (CHR ''a'') 1 1 True False, blank_token],
                  cclbuf = [blank_classchar], ccli = 0\<rparr>)"
  by (simp add: eval_defs)

text \<open>
  Claim C8. An atomic token is matched in the first loop of \<^verbatim>\<open>matchpattern\<close>, at the
  head of the program or after tokens of fixed count and other atomic tokens, and after
  a token of variable count in the call for the rest of the program.
  \<^item> First part: at a token that is atomic or of fixed count the first loop calls
    \<^verbatim>\<open>matchcount\<close> once, with the count the token starts from, and then returns or
    goes on to the next token; it does not hand the token to the loop that retries
    counts.
  \<^item> Second part: when that call leaves at least \<^verbatim>\<open>quantifiermin\<close> repetitions and the
    rest of the program fails at the position after the bytes eaten (\<^verbatim>\<open>errno\<close> set),
    \<^verbatim>\<open>matchpattern\<close> fails with the same \<^verbatim>\<open>errno\<close> and value: no smaller count is
    tried. The hypothesis admits tokens of fixed count that are not atomic, so the
    statement chains through the tokens before an atomic one.
  \<^item> The search of \<^verbatim>\<open>a++a\<close> in \<^verbatim>\<open>aaaa\<close> finds no match, and neither does the search
    of \<^verbatim>\<open>ba++a\<close> in \<^verbatim>\<open>baaa\<close>, where the atomic token comes second: whatever the
    fuel, the \<^verbatim>\<open>length\<close> pointer and \<^verbatim>\<open>errno\<close> before the call.
\<close>

theorem atomic_commits:
  "((atomic p \<or> quantifiermin p = quantifiermax p) \<and> tk_type p \<noteq> TOKEN_NULLTERM
    \<and> matchcount cb p (if greedy p then quantifiermax p else quantifiermin p) text i e
        = Inr (e1, count, n)
    \<longrightarrow> matchpattern_iter cb (p # ps) text i e
        = (if count < quantifiermin p then Inr (Returned e1 0)
           else matchpattern_iter cb ps text (i + n) e1))
   \<and> ((atomic p \<or> quantifiermin p = quantifiermax p) \<and> tk_type p \<noteq> TOKEN_NULLTERM
    \<and> matchcount cb p (if greedy p then quantifiermax p else quantifiermin p) text i e
        = Inr (e1, count, n)
    \<and> quantifiermin p \<le> count
    \<and> matchpattern fuel cb ps text (i + n) e1 = Some (Inr (e2, m)) \<and> e2 \<noteq> ENONE
    \<longrightarrow> matchpattern fuel cb (p # ps) text i e = Some (Inr (e2, m)))
   \<and> re_smatch (Suc k) (blank_regex 3 1) ''a++a'' ''aaaa'' len e0 = Some (Inr (EINVAL, 0, len))
   \<and> re_smatch (Suc k) (blank_regex 4 1) ''ba++a'' ''baaa'' len e0
       = Some (Inr (EINVAL, 0, len))"
proof -
  have step: "(atomic p \<or> quantifiermin p = quantifiermax p) \<and> tk_type p \<noteq> TOKEN_NULLTERM
    \<and> matchcount cb p (if greedy p then quantifiermax p else quantifiermin p) text i e
        = Inr (e1, count, n)
    \<longrightarrow> matchpattern_iter cb (p # ps) text i e
        = (if count < quantifiermin p then Inr (Returned e1 0)
           else matchpattern_iter cb ps text (i + n) e1)"
    using matchpattern_iter_step[of p cb "text" i e e1 count n ps] by blast
  have commit: "(atomic p \<or> quantifiermin p = quantifiermax p) \<and> tk_type p \<noteq> TOKEN_NULLTERM
    \<and> matchcount cb p (if greedy p then quantifiermax p else quantifiermin p) text i e
        = Inr (e1, count, n)
    \<and> quantifiermin p \<le> count
    \<and> matchpattern fuel cb ps text (i + n) e1 = Some (Inr (e2, m)) \<and> e2 \<noteq> ENONE
    \<longrightarrow> matchpattern fuel cb (p # ps) text i e = Some (Inr (e2, m))"
    using matchpattern_fail_cons[of p cb "text" i e e1 count n fuel ps e2 m] by blast
  have first: "re_smatch (Suc k) (blank_regex 3 1) ''a++a'' ''aaaa'' len e0
               = Some (Inr (EINVAL, 0, len))"
    by (simp only: re_smatch_def compile_a_plusplus_a) (simp add: eval_defs)
  have second: "re_smatch (Suc k) (blank_regex 4 1) ''ba++a'' ''baaa'' len e0
               = Some (Inr (EINVAL, 0, len))"
    by (simp only: re_smatch_def compile_b_a_plusplus_a) (simp add: eval_defs)
  from step commit first second show ?thesis by blast
qed

text \<open>The theorem's first two parts at the program of \<^verbatim>\<open>ba++a\<close> and the text
  \<^verbatim>\<open>baaa\<close>. At position 1 the atomic token heads the rest: it eats the three bytes
  \<^verbatim>\<open>a\<close>, the last token fails at position 4, and the rest fails. At position 0 the
  token \<^verbatim>\<open>b\<close> of fixed count comes first: it eats one byte, the rest fails at position
  1 as just said, and the whole program fails.\<close>

theorem atomic_commits_witness:
  "(atomic (tok_char (CHR ''a'') 1 255 True True)
      \<or> quantifiermin (tok_char (CHR ''a'') 1 255 True True)
          = quantifiermax (tok_char (CHR ''a'') 1 255 True True))
   \<and> tk_type (tok_char (CHR ''a'') 1 255 True True) \<noteq> TOKEN_NULLTERM
   \<and> matchcount [blank_classchar] (tok_char (CHR ''a'') 1 255 True True) 255 ''baaa'' 1 ENONE
       = Inr (EINVAL, 3, 3)
   \<and> quantifiermin (tok_char (CHR ''a'') 1 255 True True) \<le> 3
   \<and> matchpattern_iter [blank_classchar]
        [tok_char (CHR ''a'') 1 255 True True, tok_char (CHR ''a'') 1 1 True False, blank_token]
        ''baaa'' 1 ENONE
       = matchpattern_iter [blank_classchar] [tok_char (CHR ''a'') 1 1 True False, blank_token]
           ''baaa'' (1 + 3) EINVAL
   \<and> matchpattern (Suc 0) [blank_classchar] [tok_char (CHR ''a'') 1 1 True False, blank_token]
        ''baaa'' (1 + 3) EINVAL = Some (Inr (EINVAL, 0))
   \<and> EINVAL \<noteq> ENONE
   \<and> matchpattern (Suc 0) [blank_classchar]
        [tok_char (CHR ''a'') 1 255 True True, tok_char (CHR ''a'') 1 1 True False, blank_token]
        ''baaa'' 1 ENONE = Some (Inr (EINVAL, 0))
   \<and> (atomic (tok_char (CHR ''b'') 1 1 True False)
      \<or> quantifiermin (tok_char (CHR ''b'') 1 1 True False)
          = quantifiermax (tok_char (CHR ''b'') 1 1 True False))
   \<and> tk_type (tok_char (CHR ''b'') 1 1 True False) \<noteq> TOKEN_NULLTERM
   \<and> matchcount [blank_classchar] (tok_char (CHR ''b'') 1 1 True False) 1 ''baaa'' 0 ENONE
       = Inr (ENONE, 1, 1)
   \<and> quantifiermin (tok_char (CHR ''b'') 1 1 True False) \<le> 1
   \<and> matchpattern (Suc 0) [blank_classchar]
        [tok_char (CHR ''b'') 1 1 True False, tok_char (CHR ''a'') 1 255 True True,
         tok_char (CHR ''a'') 1 1 True False, blank_token]
        ''baaa'' 0 ENONE = Some (Inr (EINVAL, 0))"
proof -
  let ?b = "tok_char (CHR ''b'') 1 1 True False"
  let ?p = "tok_char (CHR ''a'') 1 255 True True"
  let ?ps = "[tok_char (CHR ''a'') 1 1 True False, blank_token]"
  have hp: "(atomic ?p \<or> quantifiermin ?p = quantifiermax ?p) \<and> tk_type ?p \<noteq> TOKEN_NULLTERM
    \<and> matchcount [blank_classchar] ?p (if greedy ?p then quantifiermax ?p else quantifiermin ?p)
         ''baaa'' 1 ENONE = Inr (EINVAL, 3, 3)"
    by (simp add: eval_defs)
  have hp': "quantifiermin ?p \<le> 3
    \<and> matchpattern (Suc 0) [blank_classchar] ?ps ''baaa'' (1 + 3) EINVAL = Some (Inr (EINVAL, 0))
    \<and> EINVAL \<noteq> ENONE"
    by (simp add: eval_defs)
  have iter: "matchpattern_iter [blank_classchar] (?p # ?ps) ''baaa'' 1 ENONE
       = (if 3 < quantifiermin ?p then Inr (Returned EINVAL 0)
          else matchpattern_iter [blank_classchar] ?ps ''baaa'' (1 + 3) EINVAL)"
    using atomic_commits[THEN conjunct1, THEN mp, OF hp] .
  have rest: "matchpattern (Suc 0) [blank_classchar] (?p # ?ps) ''baaa'' 1 ENONE
              = Some (Inr (EINVAL, 0))"
    using atomic_commits[THEN conjunct2, THEN conjunct1, THEN mp] hp hp' by blast
  have hb: "(atomic ?b \<or> quantifiermin ?b = quantifiermax ?b) \<and> tk_type ?b \<noteq> TOKEN_NULLTERM
    \<and> matchcount [blank_classchar] ?b (if greedy ?b then quantifiermax ?b else quantifiermin ?b)
         ''baaa'' 0 ENONE = Inr (ENONE, 1, 1)
    \<and> quantifiermin ?b \<le> 1"
    by (simp add: eval_defs)
  have rest': "matchpattern (Suc 0) [blank_classchar] (?p # ?ps) ''baaa'' (0 + 1) ENONE
              = Some (Inr (EINVAL, 0))"
    using rest by simp
  have whole: "matchpattern (Suc 0) [blank_classchar] (?b # ?p # ?ps) ''baaa'' 0 ENONE
              = Some (Inr (EINVAL, 0))"
    using atomic_commits[THEN conjunct2, THEN conjunct1, THEN mp] hb rest' by blast
  have q: "\<not> 3 < quantifiermin ?p" by (simp add: tok_char_def)
  from hp hp' iter rest hb whole q show ?thesis
    by (simp add: tok_char_def)
qed

subsection \<open>Greedy and lazy\<close>

text \<open>
  Claim C9 says that where a pattern and its lazy twin both match at an offset, the
  greedy one matches at least as many bytes. For \<^verbatim>\<open>a?a?+\<close> and its twin
  \<^verbatim>\<open>a?a??+\<close> on the text \<^verbatim>\<open>a\<close>, both searches succeed at offset 0, the greedy one
  with length 0 and the lazy one with length 1. (When the program ends inside the first
  loop, \<^verbatim>\<open>matchpattern\<close> returns 0 rather than the bytes eaten, with \<^verbatim>\<open>errno\<close> as
  the last repetition of the atomic token left it.)
\<close>

theorem greedy_shorter_than_lazy:
  "re_smatch (Suc (Suc (Suc (Suc 0)))) (blank_regex 3 1) ''a?a?+'' ''a'' (Some 7) ENONE
     = Some (Inr (ENONE, 0, Some 0))
   \<and> re_smatch (Suc (Suc (Suc (Suc 0)))) (blank_regex 3 1) ''a?a??+'' ''a'' (Some 7) ENONE
     = Some (Inr (ENONE, 0, Some 1))"
  by (simp add: eval_defs)

section \<open>The search drivers\<close>

subsection \<open>The empty text\<close>

text \<open>
  Claim C5, as the code has it. On the empty text the loop of \<^verbatim>\<open>re_rmatch\<close> tries no
  position, whatever the program: the function returns 0 and leaves alone what
  \<^verbatim>\<open>length\<close> points to. So does \<^verbatim>\<open>re_smatch\<close> with the pattern \<^verbatim>\<open>^$\<close>. (The matcher
  itself, had it been called at position 0 of the empty text, accepts the program of
  \<^verbatim>\<open>^$\<close> with 0 bytes: third part.)
\<close>

theorem search_empty_text:
  "(\<exists>e'. re_rmatch fuel r '''' len e = Some (Inr (e', 0, len)))
   \<and> (\<exists>e'. re_smatch fuel (blank_regex 3 1) ''^$'' '''' len e = Some (Inr (e', 0, len)))
   \<and> (case re_compile (blank_regex 3 1) ''^$'' ENONE of
        Inl f \<Rightarrow> False
      | Inr (e', r') \<Rightarrow>
          e' = ENONE
          \<and> matchpattern (Suc 0) (cclbuf r') (tokens r') '''' 0 ENONE = Some (Inr (ENONE, 0)))"
  by (simp add: eval_defs)

text \<open>
  Claim C5 as stated has the search of \<^verbatim>\<open>^$\<close> in the empty text return the length 0.
  With 7 in the variable that \<^verbatim>\<open>length\<close> points to, the search returns 0 and the
  variable still holds 7.
\<close>

theorem search_empty_text_length_unwritten:
  "re_smatch (Suc 0) (blank_regex 3 1) ''^$'' '''' (Some 7) ENONE = Some (Inr (ENONE, 0, Some 7))"
  by (simp add: eval_defs)

text \<open>What \<^verbatim>\<open>length\<close> points to is written only on the way out with \<^verbatim>\<open>errno\<close>
  clear: when the loop ends with \<^verbatim>\<open>errno\<close> set, the value returned is 0 and the
  variable is as it was.\<close>

lemma re_rmatch_loop_frame:
  "re_rmatch_loop fuel r text len i e = Some (Inr (e', off, len')) \<Longrightarrow> e' \<noteq> ENONE
   \<Longrightarrow> off = 0 \<and> len' = len"
proof (induction fuel r "text" len i e rule: re_rmatch_loop.induct)
  case (1 fu pat tx ln i e)
  show ?case
  proof (cases "peek tx i")
    case (Inl f)
    with "1.prems" show ?thesis by (subst (asm) re_rmatch_loop.simps) simp
  next
    case (Inr c)
    show ?thesis
    proof (cases "c = NUL")
      case True
      with "1.prems" Inr show ?thesis by (subst (asm) re_rmatch_loop.simps) simp
    next
      case False
      show ?thesis
      proof (cases "matchpattern fu (cclbuf pat) (tokens pat) tx i ENONE")
        case None
        with "1.prems" Inr False show ?thesis by (subst (asm) re_rmatch_loop.simps) simp
      next
        case (Some a)
        show ?thesis
        proof (cases a)
          case (Inl f)
          with "1.prems" Inr False Some show ?thesis by (subst (asm) re_rmatch_loop.simps) simp
        next
          case inr: (Inr b)
          obtain e1 lb where b: "b = (e1, lb)" by (cases b)
          show ?thesis
          proof (cases "e1 = ENONE")
            case True
            with "1.prems" Inr False Some inr b show ?thesis
              by (subst (asm) re_rmatch_loop.simps) simp
          next
            case ne: False
            with "1.prems"(1) Inr False Some inr b
            have "re_rmatch_loop fu pat tx ln (i + 1) e1 = Some (Inr (e', off, len'))"
              by (subst (asm) re_rmatch_loop.simps) simp
            from "1.IH"[OF Inr False Some inr b[symmetric] ne this "1.prems"(2)]
            show ?thesis .
          qed
        qed
      qed
    qed
  qed
qed

lemma re_rmatch_frame:
  "re_rmatch fuel r text len e = Some (Inr (e', off, len')) \<Longrightarrow> e' \<noteq> ENONE
   \<Longrightarrow> off = 0 \<and> len' = len"
  unfolding re_rmatch_def by (rule re_rmatch_loop_frame)

text \<open>
  Claim C10 says that a search in which no position yields a match, the search in the
  empty text included, signals the failure out of band. \<^verbatim>\<open>re_rmatch\<close> leaves the
  variable of \<^verbatim>\<open>length\<close> alone and returns 0 there, but on the empty text it does not
  touch \<^verbatim>\<open>errno\<close>: entered with \<^verbatim>\<open>errno\<close> clear, as \<^verbatim>\<open>re_smatch\<close> enters it, it
  returns 0 with \<^verbatim>\<open>errno\<close> clear, which is what a match at offset 0 looks like. The
  pattern \<^verbatim>\<open>a\<close> in the empty text is such a search.
\<close>

theorem empty_text_no_failure_signalled:
  "re_rmatch fuel r '''' len ENONE = Some (Inr (ENONE, 0, len))
   \<and> re_smatch fuel (blank_regex 2 1) ''a'' '''' (Some 7) e = Some (Inr (ENONE, 0, Some 7))"
  by (simp add: eval_defs)

subsection \<open>All matches\<close>

text \<open>\<^verbatim>\<open>re_smatchg\<close> can return: one match of \<^verbatim>\<open>a+\<close> in \<^verbatim>\<open>bab\<close>.\<close>

lemma re_smatchg_counts:
  "re_smatchg (Suc (Suc (Suc (Suc (Suc 0))))) (blank_regex 2 1) ''a+'' ''bab'' e
   = Some (Inr (EINVAL, 1))"
  by (simp add: eval_defs)

text \<open>The program of \<^verbatim>\<open>a*\<close>, at the text \<^verbatim>\<open>b\<close>: with enough fuel the matcher accepts
  at position 0 with 0 bytes, so every search finds offset 0 and length 0, and the
  loop of \<^verbatim>\<open>re_rmatchg\<close> comes back to position 0 with one more match counted.\<close>

lemma compile_a_star:
  "re_compile (blank_regex 2 1) ''a*'' ENONE
   = Inr (ENONE, \<lparr>tokens = [tok_char (CHR ''a'') 0 255 True False, blank_token],
                  cclbuf = [blank_classchar], ccli = 0\<rparr>)"
  by (simp add: eval_defs)

lemma a_star_at_b:
  "matchpattern fuel [blank_classchar] [tok_char (CHR ''a'') 0 255 True False, blank_token]
     ''b'' 0 ENONE \<in> {None, Some (Inr (ENONE, 0))}"
proof (cases fuel)
  case 0
  then show ?thesis by simp
next
  case k1: (Suc k1)
  show ?thesis
  proof (cases k1)
    case 0
    with k1 show ?thesis by (simp add: eval_defs)
  next
    case k2: (Suc k2)
    show ?thesis
    proof (cases k2)
      case 0
      with k1 k2 show ?thesis by (simp add: eval_defs)
    next
      case (Suc k3)
      with k1 k2 show ?thesis by (simp add: eval_defs)
    qed
  qed
qed

lemma search_a_star_in_b:
  "re_rmatch fuel \<lparr>tokens = [tok_char (CHR ''a'') 0 255 True False, blank_token],
                   cclbuf = [blank_classchar], ccli = 0\<rparr> ''b'' (Some 0) ENONE
   \<in> {None, Some (Inr (ENONE, 0, Some 0))}"
  using a_star_at_b[of fuel]
  by (auto simp add: re_rmatch_def re_rmatch_loop.simps[of _ _ _ _ 0] peek_def)

lemma re_rmatchg_loop_a_star:
  "re_rmatchg_loop fuel \<lparr>tokens = [tok_char (CHR ''a'') 0 255 True False, blank_token],
                   cclbuf = [blank_classchar], ccli = 0\<rparr> ''b'' 0 c e = None"
proof (induction fuel arbitrary: c e)
  case 0
  then show ?case by simp
next
  case (Suc fuel)
  from search_a_star_in_b[of fuel] Suc.IH show ?case
    by (auto simp add: peek_def)
qed

text \<open>
  Claim C1 says that \<^verbatim>\<open>re_rmatchg\<close> and \<^verbatim>\<open>re_smatchg\<close> terminate, advancing by
  \<open>max(length, 1)\<close> after a match. The code advances by the offset plus the length,
  which is 0 for an empty match at the search position. \<^verbatim>\<open>re_smatchg\<close> with the
  pattern \<^verbatim>\<open>a*\<close> and the text \<^verbatim>\<open>b\<close> never returns: no amount of fuel gives a result.
\<close>

theorem re_smatchg_never_returns:
  "re_smatchg fuel (blank_regex 2 1) ''a*'' ''b'' e = None"
  by (simp only: re_smatchg_def compile_a_star)
     (simp add: re_rmatchg_def re_rmatchg_loop_a_star)

end
